theory Spec2Isabelle
  imports Main
begin

section \<open>Data model\<close>

text \<open>
  The search subsystem of the PDF annotator: \<^verbatim>\<open>controllers/searchController.js\<close>,
  \<^verbatim>\<open>controllers/highlightController.js\<close> and the Mongoose schemas
  \<^verbatim>\<open>models/SearchIndex.js\<close>, \<^verbatim>\<open>models/Highlight.js\<close> and the PDF model.

  Strings are lists of 8-bit code units; \<open>length\<close> is JavaScript's \<open>.length\<close> on such
  text. Numbers that the code only copies (page numbers, coordinates) are integers.
  A Mongo \<open>ObjectId\<close> is a natural number.
\<close>

type_synonym UserId = nat

datatype ContentType = pdf_text | annotation

fun contentType_name :: "ContentType \<Rightarrow> string" where
  "contentType_name pdf_text = ''pdf_text''"
| "contentType_name annotation = ''annotation''"

datatype Position = Position (pos_x: int) (pos_y: int) (pos_width: int) (pos_height: int)

text \<open>\<^verbatim>\<open>models/Highlight.js\<close>; \<open>boundingBox\<close> and \<open>color\<close> are never read by the
  search subsystem and are left out.\<close>

record Highlight =
  uuid :: string
  h_pdfUuid :: string
  h_userId :: UserId
  h_pageNumber :: int
  highlightedText :: string
  h_position :: "Position option"

text \<open>\<^verbatim>\<open>models/SearchIndex.js\<close>: the fields a caller passes to \<open>SearchIndex.create\<close>, and
  the stored document, which adds \<open>_id\<close> and the \<open>createdAt\<close> of \<open>timestamps: true\<close>.\<close>

record SearchIndexFields =
  pdfUuid :: string
  userId :: UserId
  pageNumber :: int
  content :: string
  contentType :: ContentType
  position :: "Position option"
  highlightId :: "string option"

record SearchIndexDoc = SearchIndexFields +
  doc_id :: nat
  createdAt :: nat

record PdfDoc =
  pdf_uuid :: string
  pdf_userId :: UserId
  originalName :: string

section \<open>The document store\<close>

text \<open>A Mongo condition on a field: equality, or \<open>$in\<close> a list.\<close>

datatype 'a Cond = Eq 'a | In "'a list"

fun cond_holds :: "'a Cond \<Rightarrow> 'a \<Rightarrow> bool" where
  "cond_holds (Eq v) a = (a = v)"
| "cond_holds (In vs) a = (a \<in> set vs)"

text \<open>The filter objects the controllers build. Every key is optional, as in the
  JavaScript object; \<open>by_content\<close> is \<open>{ $regex: q, $options: 'i' }\<close>.\<close>

record Filter =
  by_userId :: "UserId option"
  by_highlightId :: "string option"
  by_content :: "string option"
  by_pdfUuid :: "string Cond option"
  by_contentType :: "string Cond option"
  by_createdAt_gte :: "nat option"
  by_createdAt_lte :: "nat option"
  by_pageNumber :: "int option"

definition no_filter :: Filter where
  "no_filter = \<lparr> by_userId = None, by_highlightId = None, by_content = None,
     by_pdfUuid = None, by_contentType = None, by_createdAt_gte = None,
     by_createdAt_lte = None, by_pageNumber = None \<rparr>"

text \<open>Every storage call the controllers make, with its arguments.\<close>

datatype DbOp =
    CountDocuments Filter
  | Find Filter
  | FindOne Filter
  | Create SearchIndexFields
  | InsertMany "SearchIndexFields list"
  | DeleteOne Filter
  | HighlightFind UserId
  | HighlightFindOneAndDelete string UserId
  | PdfFind "string list" UserId
  | PdfFindOne string UserId

datatype JsError =
    TypeError string
  | SyntaxError string
  | CastError string
  | StorageError DbOp

text \<open>
  What the code does not contain is a parameter: which storage calls reject
  (validation, driver or server error), the regular-expression engines for patterns
  with metacharacters (MongoDB's for \<open>$regex\<close>, JavaScript's for \<open>RegExp\<close>), and
  \<open>new Date(string)\<close>.
\<close>

record Env =
  db_fails :: "DbOp \<Rightarrow> bool"
  mongo_regex :: "string \<Rightarrow> (string \<Rightarrow> bool) option"
  js_regex_replace :: "string \<Rightarrow> (string \<Rightarrow> string) option"
  parse_date :: "string \<Rightarrow> nat option"

record World =
  searchIndex :: "SearchIndexDoc list"
  highlights :: "Highlight list"
  pdfs :: "PdfDoc list"
  clock :: nat
  oplog :: "DbOp list"

subsection \<open>Characters and case\<close>

text \<open>The capital letters among the code units below 256: \<open>A\<close> to \<open>Z\<close>, and 192 to 222
  without the multiplication sign 215. The small letter is 32 further.\<close>

definition is_upper :: "char \<Rightarrow> bool" where
  "is_upper c \<longleftrightarrow>
     (let n = (of_char c :: nat) in (65 \<le> n \<and> n \<le> 90) \<or> (192 \<le> n \<and> n \<le> 222 \<and> n \<noteq> 215))"

definition to_lower :: "char \<Rightarrow> char" where
  "to_lower c = (if is_upper c then char_of (of_char c + (32::nat)) else c)"

definition toLowerCase :: "string \<Rightarrow> string" where
  "toLowerCase s = map to_lower s"

text \<open>JavaScript's white space (\<open>\s\<close>, \<open>trim\<close>) among the code units below 256.\<close>

definition is_space :: "char \<Rightarrow> bool" where
  "is_space c \<longleftrightarrow> (of_char c :: nat) \<in> {9, 10, 11, 12, 13, 32, 160}"

text \<open>\<open>\w\<close>: letters, digits and the underscore.\<close>

definition is_word_char :: "char \<Rightarrow> bool" where
  "is_word_char c \<longleftrightarrow>
     (let n = (of_char c :: nat) in
      (48 \<le> n \<and> n \<le> 57) \<or> (65 \<le> n \<and> n \<le> 90) \<or> n = 95 \<or> (97 \<le> n \<and> n \<le> 122))"

definition trim :: "string \<Rightarrow> string" where
  "trim s = rev (dropWhile is_space (rev (dropWhile is_space s)))"

text \<open>The characters with a meaning in a regular expression. A pattern without them
  matches exactly the texts that contain it, here up to case (\<open>i\<close>).\<close>

text \<open>The codes are those of \<^verbatim>\<open>$ ( ) * + . ? [ \ ] ^ { | }\<close>.\<close>

definition is_meta :: "char \<Rightarrow> bool" where
  "is_meta c \<longleftrightarrow>
     (of_char c :: nat) \<in> {36, 40, 41, 42, 43, 46, 63, 91, 92, 93, 94, 123, 124, 125}"

definition literal :: "string \<Rightarrow> bool" where
  "literal p \<longleftrightarrow> (\<forall>c \<in> set p. \<not> is_meta c)"

definition ci_prefix :: "string \<Rightarrow> string \<Rightarrow> bool" where
  "ci_prefix t s \<longleftrightarrow> length t \<le> length s \<and> toLowerCase (take (length t) s) = toLowerCase t"

fun ci_occurs :: "string \<Rightarrow> string \<Rightarrow> bool" where
  "ci_occurs t [] = (t = [])"
| "ci_occurs t (c # cs) = (ci_prefix t (c # cs) \<or> ci_occurs t cs)"

subsection \<open>Queries\<close>

definition regex_test :: "Env \<Rightarrow> string \<Rightarrow> (string \<Rightarrow> bool) option" where
  "regex_test env p = (if literal p then Some (ci_occurs p) else mongo_regex env p)"

definition matches_fields :: "Filter \<Rightarrow> SearchIndexDoc \<Rightarrow> bool" where
  "matches_fields f d \<longleftrightarrow>
     (case by_userId f of None \<Rightarrow> True | Some u \<Rightarrow> userId d = u) \<and>
     (case by_highlightId f of None \<Rightarrow> True | Some h \<Rightarrow> highlightId d = Some h) \<and>
     (case by_pdfUuid f of None \<Rightarrow> True | Some c \<Rightarrow> cond_holds c (pdfUuid d)) \<and>
     (case by_contentType f of None \<Rightarrow> True
        | Some c \<Rightarrow> cond_holds c (contentType_name (contentType d))) \<and>
     (case by_createdAt_gte f of None \<Rightarrow> True | Some t \<Rightarrow> t \<le> createdAt d) \<and>
     (case by_createdAt_lte f of None \<Rightarrow> True | Some t \<Rightarrow> createdAt d \<le> t) \<and>
     (case by_pageNumber f of None \<Rightarrow> True | Some n \<Rightarrow> pageNumber d = n)"

text \<open>The predicate of a filter; \<open>None\<close> when its regular expression does not compile.\<close>

definition filter_pred :: "Env \<Rightarrow> Filter \<Rightarrow> (SearchIndexDoc \<Rightarrow> bool) option" where
  "filter_pred env f =
     (case by_content f of
        None \<Rightarrow> Some (matches_fields f)
      | Some p \<Rightarrow>
          (case regex_test env p of
             None \<Rightarrow> None
           | Some t \<Rightarrow> Some (\<lambda>d. t (content d) \<and> matches_fields f d)))"

definition log_op :: "DbOp \<Rightarrow> World \<Rightarrow> World" where
  "log_op op w = w\<lparr> oplog := oplog w @ [op] \<rparr>"

text \<open>A storage call on the search index with a filter: it is logged; it rejects when
  the environment says so or the filter's regular expression is invalid.\<close>

definition run_query :: "Env \<Rightarrow> DbOp \<Rightarrow> Filter \<Rightarrow> (SearchIndexDoc \<Rightarrow> bool) option" where
  "run_query env op f = (if db_fails env op then None else filter_pred env f)"

definition SearchIndex_countDocuments ::
  "Env \<Rightarrow> Filter \<Rightarrow> World \<Rightarrow> (JsError + nat) \<times> World" where
  "SearchIndex_countDocuments env f w =
     (case run_query env (CountDocuments f) f of
        None \<Rightarrow> (Inl (StorageError (CountDocuments f)), log_op (CountDocuments f) w)
      | Some p \<Rightarrow> (Inr (length (filter p (searchIndex w))), log_op (CountDocuments f) w))"

definition SearchIndex_findOne ::
  "Env \<Rightarrow> Filter \<Rightarrow> World \<Rightarrow> (JsError + SearchIndexDoc option) \<times> World" where
  "SearchIndex_findOne env f w =
     (case run_query env (FindOne f) f of
        None \<Rightarrow> (Inl (StorageError (FindOne f)), log_op (FindOne f) w)
      | Some p \<Rightarrow> (Inr (find p (searchIndex w)), log_op (FindOne f) w))"

definition stored :: "SearchIndexFields \<Rightarrow> nat \<Rightarrow> nat \<Rightarrow> SearchIndexDoc" where
  "stored f n t = \<lparr> pdfUuid = pdfUuid f, userId = userId f, pageNumber = pageNumber f,
     content = content f, contentType = contentType f, position = position f,
     highlightId = highlightId f, doc_id = n, createdAt = t \<rparr>"

text \<open>\<open>SearchIndex.create\<close>: the new document goes last in natural order, with a fresh
  \<open>_id\<close> and the current time, and time moves on.\<close>

definition SearchIndex_create ::
  "Env \<Rightarrow> SearchIndexFields \<Rightarrow> World \<Rightarrow> (JsError + unit) \<times> World" where
  "SearchIndex_create env f w =
     (if db_fails env (Create f) then (Inl (StorageError (Create f)), log_op (Create f) w)
      else (Inr (), (log_op (Create f) w)\<lparr>
              searchIndex := searchIndex w @ [stored f (clock w) (clock w)],
              clock := Suc (clock w) \<rparr>))"

fun remove_first :: "('a \<Rightarrow> bool) \<Rightarrow> 'a list \<Rightarrow> 'a list" where
  "remove_first p [] = []"
| "remove_first p (a # as) = (if p a then as else a # remove_first p as)"

definition SearchIndex_deleteOne ::
  "Env \<Rightarrow> Filter \<Rightarrow> World \<Rightarrow> (JsError + unit) \<times> World" where
  "SearchIndex_deleteOne env f w =
     (case run_query env (DeleteOne f) f of
        None \<Rightarrow> (Inl (StorageError (DeleteOne f)), log_op (DeleteOne f) w)
      | Some p \<Rightarrow>
          (Inr (), (log_op (DeleteOne f) w)\<lparr> searchIndex := remove_first p (searchIndex w) \<rparr>))"

definition Highlight_find :: "Env \<Rightarrow> UserId \<Rightarrow> World \<Rightarrow> (JsError + Highlight list) \<times> World" where
  "Highlight_find env u w =
     (if db_fails env (HighlightFind u) then
        (Inl (StorageError (HighlightFind u)), log_op (HighlightFind u) w)
      else (Inr (filter (\<lambda>h. h_userId h = u) (highlights w)), log_op (HighlightFind u) w))"

section \<open>Index maintenance (\<^verbatim>\<open>searchController.js\<close>)\<close>

definition by_highlight :: "string \<Rightarrow> UserId \<Rightarrow> Filter" where
  "by_highlight h u = no_filter\<lparr> by_highlightId := Some h, by_userId := Some u \<rparr>"

definition annotation_fields :: "Highlight \<Rightarrow> UserId \<Rightarrow> SearchIndexFields" where
  "annotation_fields h u = \<lparr> pdfUuid = h_pdfUuid h, userId = u, pageNumber = h_pageNumber h,
     content = highlightedText h, contentType = annotation, position = h_position h,
     highlightId = Some (uuid h) \<rparr>"

text \<open>\<open>indexHighlight(highlightData, userId)\<close>, lines 284-312. The body of the \<open>try\<close>,
  then the method, whose \<open>catch\<close> logs the error and returns normally.\<close>

definition indexHighlight_try ::
  "Env \<Rightarrow> Highlight \<Rightarrow> UserId \<Rightarrow> World \<Rightarrow> (JsError + unit) \<times> World" where
  "indexHighlight_try env h u w =
     (case SearchIndex_findOne env (by_highlight (uuid h) u) w of
        (Inl e, w1) \<Rightarrow> (Inl e, w1)
      | (Inr (Some existing), w1) \<Rightarrow> (Inr (), w1)
      | (Inr None, w1) \<Rightarrow> SearchIndex_create env (annotation_fields h u) w1)"

definition indexHighlight :: "Env \<Rightarrow> Highlight \<Rightarrow> UserId \<Rightarrow> World \<Rightarrow> World" where
  "indexHighlight env h u w = snd (indexHighlight_try env h u w)"

text \<open>\<open>removeHighlightIndex(highlightId, userId)\<close>, lines 315-325.\<close>

definition removeHighlightIndex_try ::
  "Env \<Rightarrow> string \<Rightarrow> UserId \<Rightarrow> World \<Rightarrow> (JsError + unit) \<times> World" where
  "removeHighlightIndex_try env h u w = SearchIndex_deleteOne env (by_highlight h u) w"

definition removeHighlightIndex :: "Env \<Rightarrow> string \<Rightarrow> UserId \<Rightarrow> World \<Rightarrow> World" where
  "removeHighlightIndex env h u w = snd (removeHighlightIndex_try env h u w)"

text \<open>\<open>autoIndexHighlights(userId)\<close>, lines 150-182: the \<open>for\<close> loop inside the \<open>try\<close>;
  a rejected call leaves the loop, and the \<open>catch\<close> around the whole body logs it.\<close>

fun autoIndex_loop ::
  "Env \<Rightarrow> UserId \<Rightarrow> Highlight list \<Rightarrow> World \<Rightarrow> (JsError + unit) \<times> World" where
  "autoIndex_loop env u [] w = (Inr (), w)"
| "autoIndex_loop env u (h # hs) w =
     (case SearchIndex_findOne env (by_highlight (uuid h) u) w of
        (Inl e, w1) \<Rightarrow> (Inl e, w1)
      | (Inr (Some existing), w1) \<Rightarrow> autoIndex_loop env u hs w1
      | (Inr None, w1) \<Rightarrow>
          (case SearchIndex_create env (annotation_fields h u) w1 of
             (Inl e, w2) \<Rightarrow> (Inl e, w2)
           | (Inr _, w2) \<Rightarrow> autoIndex_loop env u hs w2))"

definition autoIndexHighlights_try ::
  "Env \<Rightarrow> UserId \<Rightarrow> World \<Rightarrow> (JsError + unit) \<times> World" where
  "autoIndexHighlights_try env u w =
     (case Highlight_find env u w of
        (Inl e, w1) \<Rightarrow> (Inl e, w1)
      | (Inr hs, w1) \<Rightarrow> autoIndex_loop env u hs w1)"

definition autoIndexHighlights :: "Env \<Rightarrow> UserId \<Rightarrow> World \<Rightarrow> World" where
  "autoIndexHighlights env u w = snd (autoIndexHighlights_try env u w)"

text \<open>\<open>indexPdf\<close>, lines 228-281, by outcome: the four sample pages are inserted unless
  the document is not the owner's or a \<open>pdf_text\<close> entry of it exists.\<close>

definition dummyContent :: "string list" where
  "dummyContent =
    [''This is sample PDF content for testing search functionality. Job opportunities and career development.'',
     ''Important documents and annotations for review. Professional development and skills.'',
     ''Sample text content that can be searched and highlighted. Employment and work-related information.'',
     ''Additional content for comprehensive search testing. Business and professional topics.'']"

definition indexEntries :: "string \<Rightarrow> UserId \<Rightarrow> SearchIndexFields list" where
  "indexEntries pid u =
     map (\<lambda>(c, i). \<lparr> pdfUuid = pid, userId = u, pageNumber = int i + 1, content = c,
                      contentType = pdf_text, position = None, highlightId = None \<rparr>)
         (zip dummyContent [0 ..< length dummyContent])"

fun store_all :: "SearchIndexFields list \<Rightarrow> World \<Rightarrow> World" where
  "store_all [] w = w"
| "store_all (f # fs) w =
     store_all fs (w\<lparr> searchIndex := searchIndex w @ [stored f (clock w) (clock w)],
                      clock := Suc (clock w) \<rparr>)"

definition SearchIndex_insertMany ::
  "Env \<Rightarrow> SearchIndexFields list \<Rightarrow> World \<Rightarrow> (JsError + unit) \<times> World" where
  "SearchIndex_insertMany env fs w =
     (if db_fails env (InsertMany fs) then
        (Inl (StorageError (InsertMany fs)), log_op (InsertMany fs) w)
      else (Inr (), store_all fs (log_op (InsertMany fs) w)))"

definition PDF_findOne :: "Env \<Rightarrow> string \<Rightarrow> UserId \<Rightarrow> World \<Rightarrow> (JsError + PdfDoc option) \<times> World" where
  "PDF_findOne env pid u w =
     (if db_fails env (PdfFindOne pid u) then
        (Inl (StorageError (PdfFindOne pid u)), log_op (PdfFindOne pid u) w)
      else (Inr (find (\<lambda>p. pdf_uuid p = pid \<and> pdf_userId p = u) (pdfs w)),
            log_op (PdfFindOne pid u) w))"

datatype IndexPdfResponse = PdfNotFound | AlreadyIndexed | Indexed nat | IndexFailed

definition indexPdf :: "Env \<Rightarrow> UserId \<Rightarrow> string \<Rightarrow> World \<Rightarrow> IndexPdfResponse \<times> World" where
  "indexPdf env u pid w =
     (case PDF_findOne env pid u w of
        (Inl e, w1) \<Rightarrow> (IndexFailed, w1)
      | (Inr None, w1) \<Rightarrow> (PdfNotFound, w1)
      | (Inr (Some pdfDoc), w1) \<Rightarrow>
          (case SearchIndex_findOne env
                  (no_filter\<lparr> by_pdfUuid := Some (Eq pid), by_userId := Some u,
                               by_contentType := Some (Eq ''pdf_text'') \<rparr>) w1 of
             (Inl e, w2) \<Rightarrow> (IndexFailed, w2)
           | (Inr (Some existingIndex), w2) \<Rightarrow> (AlreadyIndexed, w2)
           | (Inr None, w2) \<Rightarrow>
               (case SearchIndex_insertMany env (indexEntries pid u) w2 of
                  (Inl e, w3) \<Rightarrow> (IndexFailed, w3)
                | (Inr _, w3) \<Rightarrow> (Indexed (length (indexEntries pid u)), w3))))"

section \<open>Term highlighting (\<open>highlightSearchTerms\<close>, lines 6-16)\<close>

text \<open>\<open>s.split(sep)\<close> for a one-character separator: consecutive separators give empty
  pieces, and the empty string gives one empty piece.\<close>

fun split_on :: "char \<Rightarrow> string \<Rightarrow> string \<Rightarrow> string list" where
  "split_on sep cur [] = [cur]"
| "split_on sep cur (c # cs) =
     (if c = sep then cur # split_on sep [] cs else split_on sep (cur @ [c]) cs)"

definition split_space :: "string \<Rightarrow> string list" where
  "split_space q = split_on CHR '' '' [] q"

text \<open>\<open>s.replace(new RegExp('(' + t + ')', 'gi'), '<mark>$1</mark>')\<close> for a term \<open>t\<close>
  without metacharacters: scanning from the left, each match is wrapped as it stands in
  the text and scanning resumes behind it.\<close>

function wrap_matches :: "string \<Rightarrow> string \<Rightarrow> string" where
  "wrap_matches t [] = []"
| "wrap_matches t (c # cs) =
     (if t \<noteq> [] \<and> ci_prefix t (c # cs)
      then ''<mark>'' @ take (length t) (c # cs) @ ''</mark>''
           @ wrap_matches t (drop (length t) (c # cs))
      else c # wrap_matches t cs)"
  by pat_completeness auto
termination
  by (relation "measure (\<lambda>(t, s). length s)") auto

text \<open>The empty pattern matches before every character and at the end.\<close>

definition replace_literal :: "string \<Rightarrow> string \<Rightarrow> string" where
  "replace_literal t s =
     (if t = [] then concat (map (\<lambda>c. ''<mark></mark>'' @ [c]) s) @ ''<mark></mark>''
      else wrap_matches t s)"

definition js_replace :: "Env \<Rightarrow> string \<Rightarrow> string \<Rightarrow> JsError + string" where
  "js_replace env t s =
     (if literal t then Inr (replace_literal t s)
      else (case js_regex_replace env t of
              None \<Rightarrow> Inl (SyntaxError t)
            | Some r \<Rightarrow> Inr (r s)))"

fun replace_terms :: "Env \<Rightarrow> string list \<Rightarrow> string \<Rightarrow> JsError + string" where
  "replace_terms env [] highlighted = Inr highlighted"
| "replace_terms env (t # ts) highlighted =
     (case js_replace env t highlighted of
        Inl e \<Rightarrow> Inl e
      | Inr highlighted' \<Rightarrow> replace_terms env ts highlighted')"

definition highlightSearchTerms :: "Env \<Rightarrow> string \<Rightarrow> string \<Rightarrow> JsError + string" where
  "highlightSearchTerms env cont q =
     replace_terms env (filter (\<lambda>t. 1 < length t) (split_space q)) cont"

section \<open>Searching (\<open>search\<close>, \<open>advancedSearch\<close>, \<open>getSuggestions\<close>)\<close>

subsection \<open>Requests and responses\<close>

text \<open>\<open>req.query\<close> of the simple search and the suggestions, \<open>req.body\<close> of the advanced
  search. An absent key is \<open>None\<close>.\<close>

record SearchParams =
  q_query :: "string option"
  q_pdfUuid :: "string option"
  q_contentType :: "string option"

record AdvancedParams =
  a_query :: "string option"
  a_pdfUuids :: "string list option"
  a_contentTypes :: "string list option"
  a_dateFrom :: "string option"
  a_dateTo :: "string option"
  a_pageNumber :: "int option"
  a_fuzzy :: "bool option"
  a_page :: "int option"
  a_limit :: "int option"

record FormattedResult =
  r_id :: nat
  r_pdfUuid :: string
  r_pdfName :: string
  r_pageNumber :: int
  r_content :: string
  r_highlightedContent :: string
  r_contentType :: ContentType
  r_score :: nat
  r_highlightId :: "string option"
  r_position :: "Position option"
  r_createdAt :: nat

text \<open>\<open>pages\<close> is \<open>None\<close> where \<open>Math.ceil\<close> gives no finite number.\<close>

datatype Pagination = Pagination (pg_total: nat) (pg_pages: "int option") (pg_current: int)

datatype Message = Text string | ErrorMessage JsError

text \<open>The JSON body with its status; a key the body does not have is \<open>None\<close>.\<close>

record SearchResponse =
  status :: nat
  error_text :: "string option"
  message :: "Message option"
  results :: "FormattedResult list"
  pagination :: Pagination
  needsIndexing :: "bool option"
  echo_query :: "string option"
  fuzzy :: "bool option"

definition empty_pagination :: Pagination where
  "empty_pagination = Pagination 0 (Some 0) 1"

definition invalid_query_response :: SearchResponse where
  "invalid_query_response = \<lparr> status = 400,
     error_text = Some ''Search query must be at least 2 characters'', message = None,
     results = [], pagination = empty_pagination, needsIndexing = None,
     echo_query = None, fuzzy = None \<rparr>"

definition needs_indexing_response :: SearchResponse where
  "needs_indexing_response = \<lparr> status = 200, error_text = None,
     message = Some (Text ''No content indexed yet. Please create some highlights or upload PDFs to search.''),
     results = [], pagination = empty_pagination, needsIndexing = Some True,
     echo_query = None, fuzzy = None \<rparr>"

definition failed_response :: "string \<Rightarrow> JsError \<Rightarrow> SearchResponse" where
  "failed_response what e = \<lparr> status = 500, error_text = Some what,
     message = Some (ErrorMessage e), results = [], pagination = empty_pagination,
     needsIndexing = None, echo_query = None, fuzzy = None \<rparr>"

subsection \<open>Helpers of the language\<close>

text \<open>\<open>!s\<close> for a string that may be absent.\<close>

fun falsy :: "string option \<Rightarrow> bool" where
  "falsy None = True"
| "falsy (Some s) = (s = [])"

text \<open>\<open>[...new Set(xs)]\<close>: the first occurrence of each element, in order.\<close>

fun set_add_all :: "'a list \<Rightarrow> 'a list \<Rightarrow> 'a list" where
  "set_add_all acc [] = acc"
| "set_add_all acc (a # as) = set_add_all (if a \<in> set acc then acc else acc @ [a]) as"

text \<open>\<open>Math.ceil(a / b)\<close> on integers.\<close>

definition ceil_div :: "int \<Rightarrow> int \<Rightarrow> int option" where
  "ceil_div a b = (if b = 0 then None else Some (- ((- a) div b)))"

text \<open>The receiver of a method call. Express is handed \<open>searchController.search\<close> as a
  plain function (\<^verbatim>\<open>router.get('/search', auth, searchController.search)\<close>), and a class
  body is strict code, so there \<open>this\<close> is \<open>undefined\<close>.\<close>

datatype This = This_undefined | This_controller

subsection \<open>Cursors\<close>

definition sort_createdAt_desc :: "SearchIndexDoc list \<Rightarrow> SearchIndexDoc list" where
  "sort_createdAt_desc ds = rev (sort_key createdAt ds)"

text \<open>\<open>.skip(n)\<close> and \<open>.limit(n)\<close> of the driver: a negative skip is rejected, limit 0
  is no limit and a negative limit counts as its absolute value.\<close>

definition window :: "int \<Rightarrow> int \<Rightarrow> 'a list \<Rightarrow> 'a list" where
  "window sk lim ds = (if lim = 0 then drop (nat sk) ds else take (nat \<bar>lim\<bar>) (drop (nat sk) ds))"

definition SearchIndex_find ::
  "Env \<Rightarrow> Filter \<Rightarrow> bool \<Rightarrow> int \<Rightarrow> int \<Rightarrow> World \<Rightarrow> (JsError + SearchIndexDoc list) \<times> World" where
  "SearchIndex_find env f sorted_desc sk lim w =
     (case (if sk < 0 then None else run_query env (Find f) f) of
        None \<Rightarrow> (Inl (StorageError (Find f)), log_op (Find f) w)
      | Some p \<Rightarrow>
          (Inr (window sk lim
                  ((if sorted_desc then sort_createdAt_desc else id) (filter p (searchIndex w)))),
           log_op (Find f) w))"

definition PDF_find :: "Env \<Rightarrow> string list \<Rightarrow> UserId \<Rightarrow> World \<Rightarrow> (JsError + PdfDoc list) \<times> World" where
  "PDF_find env pids u w =
     (if db_fails env (PdfFind pids u) then
        (Inl (StorageError (PdfFind pids u)), log_op (PdfFind pids u) w)
      else (Inr (filter (\<lambda>p. pdf_uuid p \<in> set pids \<and> pdf_userId p = u) (pdfs w)),
            log_op (PdfFind pids u) w))"

subsection \<open>Formatting\<close>

text \<open>The name lookup of lines 82-105 and 387-406; a failure of \<open>PDF.find\<close> is caught on
  the spot and every document is then called unknown.\<close>

definition unknown_pdf :: string where
  "unknown_pdf = ''Unknown PDF''"

definition pdf_names :: "Env \<Rightarrow> UserId \<Rightarrow> SearchIndexDoc list \<Rightarrow> World \<Rightarrow> (string \<rightharpoonup> string) \<times> World" where
  "pdf_names env u rs w =
     (let pdfUuids = set_add_all [] (map pdfUuid rs) in
      if pdfUuids = [] then (Map.empty, w)
      else (case PDF_find env pdfUuids u w of
              (Inr ps, w1) \<Rightarrow>
                (fold (\<lambda>p m. m(pdf_uuid p \<mapsto> originalName p)) ps Map.empty, w1)
            | (Inl pdfError, w1) \<Rightarrow>
                (fold (\<lambda>i m. m(i \<mapsto> unknown_pdf)) pdfUuids Map.empty, w1)))"

definition pdf_name :: "(string \<rightharpoonup> string) \<Rightarrow> string \<Rightarrow> string" where
  "pdf_name pdfMap i =
     (case pdfMap i of None \<Rightarrow> unknown_pdf | Some n \<Rightarrow> if n = [] then unknown_pdf else n)"

definition format_result :: "(string \<rightharpoonup> string) \<Rightarrow> string \<Rightarrow> SearchIndexDoc \<Rightarrow> FormattedResult" where
  "format_result pdfMap highlightedContent d = \<lparr> r_id = doc_id d, r_pdfUuid = pdfUuid d,
     r_pdfName = pdf_name pdfMap (pdfUuid d), r_pageNumber = pageNumber d,
     r_content = content d, r_highlightedContent = highlightedContent,
     r_contentType = contentType d, r_score = 1, r_highlightId = highlightId d,
     r_position = position d, r_createdAt = createdAt d \<rparr>"

text \<open>\<open>results.map(...)\<close>: an exception of \<open>highlightSearchTerms\<close> ends the map.\<close>

fun format_results ::
  "Env \<Rightarrow> (string \<rightharpoonup> string) \<Rightarrow> string \<Rightarrow> SearchIndexDoc list \<Rightarrow> JsError + FormattedResult list" where
  "format_results env pdfMap q [] = Inr []"
| "format_results env pdfMap q (d # ds) =
     (case highlightSearchTerms env (content d) q of
        Inl e \<Rightarrow> Inl e
      | Inr highlightedContent \<Rightarrow>
          (case format_results env pdfMap q ds of
             Inl e \<Rightarrow> Inl e
           | Inr rs \<Rightarrow> Inr (format_result pdfMap highlightedContent d # rs)))"

subsection \<open>\<open>search\<close>, lines 19-147\<close>

definition search_filter :: "UserId \<Rightarrow> string \<Rightarrow> SearchParams \<Rightarrow> Filter" where
  "search_filter u q ps =
     (let searchFilter = no_filter\<lparr> by_userId := Some u, by_content := Some q \<rparr>;
          searchFilter = (if falsy (q_pdfUuid ps) then searchFilter
                          else searchFilter\<lparr> by_pdfUuid := map_option Eq (q_pdfUuid ps) \<rparr>);
          contentType = (case q_contentType ps of None \<Rightarrow> ''all'' | Some c \<Rightarrow> c)
      in if contentType \<noteq> ''all'' then searchFilter\<lparr> by_contentType := Some (Eq contentType) \<rparr>
         else searchFilter)"

definition search_try ::
  "Env \<Rightarrow> This \<Rightarrow> UserId \<Rightarrow> SearchParams \<Rightarrow> World \<Rightarrow> (JsError + SearchResponse) \<times> World" where
  "search_try env this u ps w =
     (case q_query ps of
        None \<Rightarrow> (Inr invalid_query_response, w)
      | Some q \<Rightarrow>
          if q = [] \<or> length (trim q) < 2 then (Inr invalid_query_response, w)
          else
            (case SearchIndex_countDocuments env (no_filter\<lparr> by_userId := Some u \<rparr>) w of
               (Inl e, w1) \<Rightarrow> (Inl e, w1)
             | (Inr totalIndexCount, w1) \<Rightarrow>
                 if totalIndexCount = 0 then
                   (case this of
                      This_undefined \<Rightarrow>
                        (Inl (TypeError ''Cannot read properties of undefined (reading autoIndexHighlights)''), w1)
                    | This_controller \<Rightarrow>
                        (Inr needs_indexing_response, autoIndexHighlights env u w1))
                 else
                   (case SearchIndex_find env (search_filter u q ps) True 0 20 w1 of
                      (Inl e, w2) \<Rightarrow> (Inl e, w2)
                    | (Inr rs, w2) \<Rightarrow>
                        (case pdf_names env u rs w2 of
                           (pdfMap, w3) \<Rightarrow>
                             (case format_results env pdfMap q rs of
                                Inl e \<Rightarrow> (Inl e, w3)
                              | Inr formattedResults \<Rightarrow>
                                  (Inr \<lparr> status = 200, error_text = None, message = None,
                                     results = formattedResults,
                                     pagination = Pagination (length rs)
                                        (ceil_div (int (length rs)) 20) 1,
                                     needsIndexing = None, echo_query = Some q,
                                     fuzzy = None \<rparr>, w3))))))"

definition search :: "Env \<Rightarrow> This \<Rightarrow> UserId \<Rightarrow> SearchParams \<Rightarrow> World \<Rightarrow> SearchResponse \<times> World" where
  "search env this u ps w =
     (case search_try env this u ps w of
        (Inr response, w1) \<Rightarrow> (response, w1)
      | (Inl e, w1) \<Rightarrow> (failed_response ''Search failed'' e, w1))"

text \<open>The route \<^verbatim>\<open>router.get('/search', auth, searchController.search)\<close>.\<close>

definition route_search :: "Env \<Rightarrow> UserId \<Rightarrow> SearchParams \<Rightarrow> World \<Rightarrow> SearchResponse \<times> World" where
  "route_search env u ps w = search env This_undefined u ps w"

subsection \<open>\<open>advancedSearch\<close>, lines 328-447\<close>

text \<open>\<open>new Date(s)\<close> for the bounds that are given; an invalid date makes Mongoose
  reject the query when it casts the filter.\<close>

definition date_bound :: "Env \<Rightarrow> string option \<Rightarrow> JsError + nat option" where
  "date_bound env s =
     (case s of
        None \<Rightarrow> Inr None
      | Some str \<Rightarrow>
          if str = [] then Inr None
          else (case parse_date env str of
                  None \<Rightarrow> Inl (CastError str)
                | Some t \<Rightarrow> Inr (Some t)))"

definition advanced_filter ::
  "UserId \<Rightarrow> string \<Rightarrow> AdvancedParams \<Rightarrow> nat option \<Rightarrow> nat option \<Rightarrow> Filter" where
  "advanced_filter u q ps dateFrom dateTo =
     (let pdfUuids = (case a_pdfUuids ps of None \<Rightarrow> [] | Some l \<Rightarrow> l);
          contentTypes = (case a_contentTypes ps of None \<Rightarrow> [''all''] | Some l \<Rightarrow> l);
          searchFilter = no_filter\<lparr> by_userId := Some u, by_content := Some q \<rparr>;
          searchFilter = (if 0 < length pdfUuids
                          then searchFilter\<lparr> by_pdfUuid := Some (In pdfUuids) \<rparr>
                          else searchFilter);
          searchFilter = (if ''all'' \<notin> set contentTypes
                          then searchFilter\<lparr> by_contentType := Some (In contentTypes) \<rparr>
                          else searchFilter);
          searchFilter = searchFilter\<lparr> by_createdAt_gte := dateFrom, by_createdAt_lte := dateTo \<rparr>
      in (case a_pageNumber ps of
            None \<Rightarrow> searchFilter
          | Some n \<Rightarrow> if n = 0 then searchFilter else searchFilter\<lparr> by_pageNumber := Some n \<rparr>))"

text \<open>The defaults \<open>page = 1\<close> and \<open>limit = 20\<close> of the destructuring.\<close>

definition page_of :: "AdvancedParams \<Rightarrow> int" where
  "page_of ps = (case a_page ps of None \<Rightarrow> 1 | Some n \<Rightarrow> n)"

definition limit_of :: "AdvancedParams \<Rightarrow> int" where
  "limit_of ps = (case a_limit ps of None \<Rightarrow> 20 | Some n \<Rightarrow> n)"

text \<open>\<open>Promise.all\<close> starts the page query and the count together.\<close>

definition advancedSearch_try ::
  "Env \<Rightarrow> UserId \<Rightarrow> AdvancedParams \<Rightarrow> World \<Rightarrow> (JsError + SearchResponse) \<times> World" where
  "advancedSearch_try env u ps w =
     (let page = page_of ps; limit = limit_of ps
      in case a_query ps of
        None \<Rightarrow> (Inr invalid_query_response, w)
      | Some q \<Rightarrow>
          if q = [] \<or> length (trim q) < 2 then (Inr invalid_query_response, w)
          else
            (case (date_bound env (a_dateFrom ps), date_bound env (a_dateTo ps)) of
               (Inl e, _) \<Rightarrow> (Inl e, w)
             | (Inr _, Inl e) \<Rightarrow> (Inl e, w)
             | (Inr dateFrom, Inr dateTo) \<Rightarrow>
                 (let searchFilter = advanced_filter u q ps dateFrom dateTo;
                      skip = (page - 1) * limit
                  in case SearchIndex_find env searchFilter True skip limit w of
                       (found, w1) \<Rightarrow>
                  (case SearchIndex_countDocuments env searchFilter w1 of
                       (counted, w2) \<Rightarrow>
                  (case (found, counted) of
                     (Inl e, _) \<Rightarrow> (Inl e, w2)
                   | (Inr _, Inl e) \<Rightarrow> (Inl e, w2)
                   | (Inr rs, Inr totalCount) \<Rightarrow>
                       (case pdf_names env u rs w2 of
                          (pdfMap, w3) \<Rightarrow>
                            (case format_results env pdfMap q rs of
                               Inl e \<Rightarrow> (Inl e, w3)
                             | Inr formattedResults \<Rightarrow>
                                 (Inr \<lparr> status = 200, error_text = None, message = None,
                                    results = formattedResults,
                                    pagination = Pagination totalCount (ceil_div (int totalCount) limit) page,
                                    needsIndexing = None, echo_query = Some q,
                                    fuzzy = Some False \<rparr>, w3))))))))"

definition advancedSearch ::
  "Env \<Rightarrow> UserId \<Rightarrow> AdvancedParams \<Rightarrow> World \<Rightarrow> SearchResponse \<times> World" where
  "advancedSearch env u ps w =
     (case advancedSearch_try env u ps w of
        (Inr response, w1) \<Rightarrow> (response, w1)
      | (Inl e, w1) \<Rightarrow> (failed_response ''Advanced search failed'' e, w1))"

subsection \<open>\<open>getSuggestions\<close>, lines 185-225\<close>

text \<open>\<open>s.split(/\s+/)\<close>: a piece ends at each run of white space; a run at either end
  leaves an empty piece there.\<close>

fun split_ws :: "bool \<Rightarrow> string \<Rightarrow> string \<Rightarrow> string list" where
  "split_ws in_run cur [] = [cur]"
| "split_ws in_run cur (c # cs) =
     (if is_space c then (if in_run then split_ws True cur cs else cur # split_ws True [] cs)
      else split_ws False (cur @ [c]) cs)"

definition split_whitespace :: "string \<Rightarrow> string list" where
  "split_whitespace s = split_ws False [] s"

definition cleanWord :: "string \<Rightarrow> string" where
  "cleanWord word = toLowerCase (filter is_word_char word)"

definition is_suggestion :: "string \<Rightarrow> string \<Rightarrow> bool" where
  "is_suggestion queryLower cw \<longleftrightarrow>
     take (length queryLower) cw = queryLower \<and> length queryLower < length cw"

definition content_suggestions :: "string \<Rightarrow> string \<Rightarrow> string list" where
  "content_suggestions queryLower cont =
     filter (is_suggestion queryLower) (map cleanWord (split_whitespace cont))"

datatype Suggestion = Suggestion (sg_text: string) (sg_count: nat)

definition suggestion_filter :: "UserId \<Rightarrow> string \<Rightarrow> Filter" where
  "suggestion_filter u q = no_filter\<lparr> by_userId := Some u, by_content := Some q \<rparr>"

definition getSuggestions ::
  "Env \<Rightarrow> UserId \<Rightarrow> string option \<Rightarrow> World \<Rightarrow> Suggestion list \<times> World" where
  "getSuggestions env u query w =
     (case query of
        None \<Rightarrow> ([], w)
      | Some q \<Rightarrow>
          if q = [] \<or> length q < 2 then ([], w)
          else
            (case SearchIndex_find env (suggestion_filter u q) False 0 5 w of
               (Inl e, w1) \<Rightarrow> ([], w1)
             | (Inr rs, w1) \<Rightarrow>
                 (let suggestions =
                        set_add_all []
                          (concat (map (\<lambda>r. content_suggestions (toLowerCase q) (content r)) rs))
                  in (map (\<lambda>t. Suggestion t 1) (take 5 suggestions), w1))))"

section \<open>Deleting a highlight (\<^verbatim>\<open>highlightController.js\<close>, lines 132-151)\<close>

definition Highlight_findOneAndDelete ::
  "Env \<Rightarrow> string \<Rightarrow> UserId \<Rightarrow> World \<Rightarrow> (JsError + Highlight option) \<times> World" where
  "Highlight_findOneAndDelete env i u w =
     (if db_fails env (HighlightFindOneAndDelete i u) then
        (Inl (StorageError (HighlightFindOneAndDelete i u)),
         log_op (HighlightFindOneAndDelete i u) w)
      else (Inr (find (\<lambda>h. uuid h = i \<and> h_userId h = u) (highlights w)),
            (log_op (HighlightFindOneAndDelete i u) w)\<lparr>
               highlights := remove_first (\<lambda>h. uuid h = i \<and> h_userId h = u) (highlights w) \<rparr>))"

text \<open>\<open>highlight.uuid\<close>: reading a property of \<open>null\<close> throws.\<close>

fun read_uuid :: "Highlight option \<Rightarrow> JsError + string" where
  "read_uuid None = Inl (TypeError ''Cannot read properties of null (reading uuid)'')"
| "read_uuid (Some h) = Inr (uuid h)"

text \<open>A handler either sends a response or hands an error to \<open>next\<close>.\<close>

datatype HighlightResponse =
    Deleted
  | NotFound

datatype 'a Outcome = Responded nat 'a | Next JsError

definition delete_try ::
  "Env \<Rightarrow> UserId \<Rightarrow> string \<Rightarrow> World \<Rightarrow> (JsError + nat \<times> HighlightResponse) \<times> World" where
  "delete_try env u i w =
     (case Highlight_findOneAndDelete env i u w of
        (Inl e, w1) \<Rightarrow> (Inl e, w1)
      | (Inr highlight, w1) \<Rightarrow>
          (case read_uuid highlight of
             Inl e \<Rightarrow> (Inl e, w1)
           | Inr hid \<Rightarrow>
               (let w2 = removeHighlightIndex env hid u w1
                in if highlight = None then (Inr (404, NotFound), w2)
                   else (Inr (200, Deleted), w2))))"

definition delete :: "Env \<Rightarrow> UserId \<Rightarrow> string \<Rightarrow> World \<Rightarrow> HighlightResponse Outcome \<times> World" where
  "delete env u i w =
     (case delete_try env u i w of
        (Inr (code, body), w1) \<Rightarrow> (Responded code body, w1)
      | (Inl e, w1) \<Rightarrow> (Next e, w1))"

section \<open>Notions used in the properties\<close>

text \<open>The index entries of one highlight for one owner.\<close>

definition units_for :: "string \<Rightarrow> UserId \<Rightarrow> World \<Rightarrow> SearchIndexDoc list" where
  "units_for h u w = filter (\<lambda>d. highlightId d = Some h \<and> userId d = u) (searchIndex w)"

text \<open>Only annotation entries carry a \<open>highlightId\<close>.\<close>

definition annotations_only :: "World \<Rightarrow> bool" where
  "annotations_only w \<longleftrightarrow>
     list_all (\<lambda>d. highlightId d \<noteq> None \<longrightarrow> contentType d = annotation) (searchIndex w)"

text \<open>Identifiers are distinct and older than the clock.\<close>

definition ids_fresh :: "World \<Rightarrow> bool" where
  "ids_fresh w \<longleftrightarrow> distinct (map doc_id (searchIndex w)) \<and>
     list_all (\<lambda>d. doc_id d < clock w) (searchIndex w)"

text \<open>The owner a storage call is confined to.\<close>

fun op_owner :: "DbOp \<Rightarrow> UserId option" where
  "op_owner (CountDocuments f) = by_userId f"
| "op_owner (Find f) = by_userId f"
| "op_owner (FindOne f) = by_userId f"
| "op_owner (Create d) = Some (userId d)"
| "op_owner (InsertMany ds) = (case ds of [] \<Rightarrow> None | d # _ \<Rightarrow>
     if \<forall>d' \<in> set ds. userId d' = userId d then Some (userId d) else None)"
| "op_owner (DeleteOne f) = by_userId f"
| "op_owner (HighlightFind u) = Some u"
| "op_owner (HighlightFindOneAndDelete i u) = Some u"
| "op_owner (PdfFind is u) = Some u"
| "op_owner (PdfFindOne i u) = Some u"

text \<open>The storage calls made between two worlds.\<close>

definition new_ops :: "World \<Rightarrow> World \<Rightarrow> DbOp list" where
  "new_ops w w' = drop (length (oplog w)) (oplog w')"

text \<open>Between two worlds, storage calls were only added, each confined to one owner.\<close>

definition confined :: "UserId \<Rightarrow> World \<Rightarrow> World \<Rightarrow> bool" where
  "confined u w w' \<longleftrightarrow>
     length (oplog w) \<le> length (oplog w') \<and> take (length (oplog w)) (oplog w') = oplog w \<and>
     list_all (\<lambda>op. op_owner op = Some u) (new_ops w w')"

text \<open>A formatted result shows a stored document: it copies its fields.\<close>

definition renders :: "FormattedResult \<Rightarrow> SearchIndexDoc \<Rightarrow> bool" where
  "renders r d \<longleftrightarrow> r_id r = doc_id d \<and> r_pdfUuid r = pdfUuid d \<and> r_pageNumber r = pageNumber d
     \<and> r_content r = content d \<and> r_contentType r = contentType d
     \<and> r_highlightId r = highlightId d \<and> r_position r = position d
     \<and> r_createdAt r = createdAt d"

text \<open>The entries the suggestions read: the first five matches in natural order. Beside
  them, the five most recent matches, which is what a scan by recency would read.\<close>

definition scanned_units :: "(string \<Rightarrow> bool) \<Rightarrow> UserId \<Rightarrow> World \<Rightarrow> SearchIndexDoc list" where
  "scanned_units t u w = take 5 (filter (\<lambda>d. t (content d) \<and> userId d = u) (searchIndex w))"

definition most_recent_units :: "(string \<Rightarrow> bool) \<Rightarrow> UserId \<Rightarrow> World \<Rightarrow> SearchIndexDoc list" where
  "most_recent_units t u w =
     take 5 (sort_createdAt_desc (filter (\<lambda>d. t (content d) \<and> userId d = u) (searchIndex w)))"

text \<open>The words of those entries that complete the query.\<close>

definition candidate_words :: "string \<Rightarrow> SearchIndexDoc list \<Rightarrow> string list" where
  "candidate_words queryLower ds = concat (map (\<lambda>d. content_suggestions queryLower (content d)) ds)"

text \<open>\<open>pieces.join(sep)\<close> for a one-character separator.\<close>

fun join_with :: "char \<Rightarrow> string list \<Rightarrow> string" where
  "join_with sep [] = []"
| "join_with sep [p] = p"
| "join_with sep (p # p' # ps) = p @ sep # join_with sep (p' # ps)"

text \<open>The terms of a query: \<open>query.split(' ').filter(term => term.length > 1)\<close>.\<close>

definition query_terms :: "string \<Rightarrow> string list" where
  "query_terms q = filter (\<lambda>t. 1 < length t) (split_space q)"

text \<open>The stored entries that contain the query up to case and pass the other fields
  of a filter, in stored order.\<close>

definition matching_units :: "string \<Rightarrow> Filter \<Rightarrow> World \<Rightarrow> SearchIndexDoc list" where
  "matching_units q f w =
     filter (\<lambda>d. ci_occurs q (content d) \<and> matches_fields f d) (searchIndex w)"

subsection \<open>Sample data\<close>

text \<open>An environment in which no storage call rejects, and one in which exactly one does.
  Neither has a regular-expression engine or a date parser: the samples do not need them.\<close>

definition env_ok :: Env where
  "env_ok = \<lparr> db_fails = (\<lambda>_. False), mongo_regex = (\<lambda>_. None),
     js_regex_replace = (\<lambda>_. None), parse_date = (\<lambda>_. None) \<rparr>"

definition env_reject :: "DbOp \<Rightarrow> Env" where
  "env_reject op = env_ok\<lparr> db_fails := (\<lambda>op'. op' = op) \<rparr>"

text \<open>Worlds: empty; one highlight of owner 1 and no index entry; one entry for each of two
  owners; a page and an annotation of owner 1, with a second highlight \<open>highlight_a\<close> of the
  same text; two highlights and no entry; six pages, the most recent last.\<close>

definition world_empty :: World where
  "world_empty = \<lparr> searchIndex = [], highlights = [], pdfs = [], clock = 0, oplog = [] \<rparr>"

definition hl :: "string \<Rightarrow> string \<Rightarrow> UserId \<Rightarrow> Highlight" where
  "hl i t u = \<lparr> uuid = i, h_pdfUuid = ''D'', h_userId = u, h_pageNumber = 3,
     highlightedText = t, h_position = None \<rparr>"

definition simple_query :: "string \<Rightarrow> SearchParams" where
  "simple_query q = \<lparr> q_query = Some q, q_pdfUuid = None, q_contentType = None \<rparr>"

definition advanced_query :: "string \<Rightarrow> bool \<Rightarrow> AdvancedParams" where
  "advanced_query q fz = \<lparr> a_query = Some q, a_pdfUuids = None, a_contentTypes = None,
     a_dateFrom = None, a_dateTo = None, a_pageNumber = None, a_fuzzy = Some fz,
     a_page = None, a_limit = None \<rparr>"

definition world_unindexed :: World where
  "world_unindexed = world_empty\<lparr> highlights := [hl ''h1'' ''machine learning basics'' 1] \<rparr>"

definition world_two :: World where
  "world_two = \<lparr> searchIndex =
       [stored (annotation_fields (hl ''h1'' ''red fox'' 1) 1) 0 0,
        stored (annotation_fields (hl ''h2'' ''red fox'' 2) 2) 1 1],
     highlights = [hl ''h1'' ''red fox'' 1, hl ''h2'' ''red fox'' 2],
     pdfs = [], clock = 2, oplog = [] \<rparr>"

definition highlight_a :: Highlight where
  "highlight_a = hl ''h1'' ''red fox'' 1"

definition world_b :: World where
  "world_b = \<lparr> searchIndex =
       [stored \<lparr> pdfUuid = ''D'', userId = 1, pageNumber = 1,
                 content = ''a red fox'', contentType = pdf_text,
                 position = None, highlightId = None \<rparr> 0 0,
        stored (annotation_fields (hl ''h2'' ''red fox'' 1) 1) 1 1],
     highlights = [hl ''h2'' ''red fox'' 1, hl ''h1'' ''red fox'' 1],
     pdfs = [], clock = 2, oplog = [] \<rparr>"

definition world_hh :: World where
  "world_hh = \<lparr> searchIndex = [],
     highlights = [hl ''h1'' ''alpha beta'' 1, hl ''h2'' ''gamma delta'' 1],
     pdfs = [], clock = 0, oplog = [] \<rparr>"

definition page_unit :: "string \<Rightarrow> nat \<Rightarrow> SearchIndexDoc" where
  "page_unit c n = stored \<lparr> pdfUuid = ''D'', userId = 1, pageNumber = int n, content = c,
     contentType = pdf_text, position = None, highlightId = None \<rparr> n n"

definition world_six :: World where
  "world_six = \<lparr> searchIndex =
       [page_unit ''apple'' 0, page_unit ''apple'' 1, page_unit ''apple'' 2,
        page_unit ''apple'' 3, page_unit ''apple'' 4, page_unit ''an application'' 5],
     highlights = [], pdfs = [], clock = 6, oplog = [] \<rparr>"

text \<open>An environment whose engine compiles the one pattern \<open>z.z\<close>; on a text without a
  match, as in the samples, its replacement changes nothing.\<close>

definition env_engine :: Env where
  "env_engine = env_ok\<lparr> js_regex_replace :=
     (\<lambda>t. if t = ''z.z'' then Some (\<lambda>s. s) else None) \<rparr>"

section \<open>Facts about the store\<close>

lemma filter_pred_by_highlight:
  "filter_pred env (by_highlight h u) = Some (\<lambda>d. userId d = u \<and> highlightId d = Some h)"
  by (auto simp: filter_pred_def by_highlight_def no_filter_def matches_fields_def)

lemma searchIndex_log_op [simp]: "searchIndex (log_op op w) = searchIndex w"
  by (simp add: log_op_def)

lemma find_None_filter: "find p xs = None \<longleftrightarrow> filter p xs = []"
  by (induction xs) auto

lemma find_Some_filter: "find p xs = Some a \<Longrightarrow> filter p xs \<noteq> []"
  by (induction xs) (auto split: if_splits)

lemma stored_annotation [simp]:
  "highlightId (stored (annotation_fields h u) n t) = Some (uuid h)"
  "userId (stored (annotation_fields h u) n t) = u"
  "contentType (stored (annotation_fields h u) n t) = annotation"
  "content (stored (annotation_fields h u) n t) = highlightedText h"
  by (simp_all add: stored_def annotation_fields_def)

lemma indexHighlight_store:
  "searchIndex (indexHighlight env h u w) =
     (if \<not> db_fails env (FindOne (by_highlight (uuid h) u)) \<and> units_for (uuid h) u w = []
         \<and> \<not> db_fails env (Create (annotation_fields h u))
      then searchIndex w @ [stored (annotation_fields h u) (clock w) (clock w)]
      else searchIndex w)"
  by (auto simp: indexHighlight_def indexHighlight_try_def SearchIndex_findOne_def run_query_def
      SearchIndex_create_def units_for_def find_None_filter log_op_def conj_commute
      filter_pred_by_highlight
      split: option.splits prod.splits sum.splits dest: find_Some_filter)

text \<open>Indexing a highlight never makes a second entry for any highlight and owner.\<close>

lemma indexHighlight_keeps_unique:
  "length (units_for h' u' w) \<le> 1 \<Longrightarrow> length (units_for h' u' (indexHighlight env h u w)) \<le> 1"
  by (auto simp: indexHighlight_store units_for_def)

section \<open>C1: indexing a highlight twice\<close>

text \<open>
  Claim C1. Calling \<open>indexHighlight\<close> twice in a row for the same highlight and owner
  leaves exactly one index entry with that \<open>highlightId\<close> for that owner, provided the
  index held at most one such entry before (every operation keeps it so) and the storage
  calls of the first call go through. The second call does not change the index,
  whatever the storage does then, and it ends normally when its lookup goes through.
\<close>

theorem indexHighlight_idempotent:
  assumes "length (units_for (uuid h) u w) \<le> 1"
    and "\<not> db_fails env (FindOne (by_highlight (uuid h) u))"
    and "\<not> db_fails env (Create (annotation_fields h u))"
  shows "length (units_for (uuid h) u (indexHighlight env' h u (indexHighlight env h u w))) = 1
       \<and> searchIndex (indexHighlight env' h u (indexHighlight env h u w))
           = searchIndex (indexHighlight env h u w)
       \<and> (\<not> db_fails env' (FindOne (by_highlight (uuid h) u)) \<longrightarrow>
            fst (indexHighlight_try env' h u (indexHighlight env h u w)) = Inr ())"
proof -
  let ?w1 = "indexHighlight env h u w"
  have one: "length (units_for (uuid h) u ?w1) = 1"
    using assms by (auto simp: indexHighlight_store units_for_def le_Suc_eq)
  then have ne: "units_for (uuid h) u ?w1 \<noteq> []"
    by auto
  have same: "searchIndex (indexHighlight env' h u ?w1) = searchIndex ?w1"
    using ne by (simp add: indexHighlight_store)
  have ok: "fst (indexHighlight_try env' h u ?w1) = Inr ()"
    if "\<not> db_fails env' (FindOne (by_highlight (uuid h) u))"
    using that ne
    by (auto simp: indexHighlight_try_def SearchIndex_findOne_def run_query_def
        filter_pred_by_highlight units_for_def find_None_filter conj_commute
        split: option.splits)
  from one same ok show ?thesis
    by (simp add: units_for_def)
qed

theorem indexHighlight_idempotent_witness:
  "length (units_for (uuid (hl ''h1'' ''machine learning basics'' 1)) 1 world_empty) \<le> 1
   \<and> \<not> db_fails env_ok (FindOne (by_highlight (uuid (hl ''h1'' ''machine learning basics'' 1)) 1))
   \<and> \<not> db_fails env_ok (Create (annotation_fields (hl ''h1'' ''machine learning basics'' 1) 1))
   \<and> length (units_for (uuid (hl ''h1'' ''machine learning basics'' 1)) 1
        (indexHighlight env_ok (hl ''h1'' ''machine learning basics'' 1) 1
          (indexHighlight env_ok (hl ''h1'' ''machine learning basics'' 1) 1 world_empty))) = 1"
proof -
  have a: "length (units_for (uuid (hl ''h1'' ''machine learning basics'' 1)) 1 world_empty) \<le> 1"
    by (simp add: units_for_def world_empty_def)
  have b: "\<not> db_fails env_ok (FindOne (by_highlight (uuid (hl ''h1'' ''machine learning basics'' 1)) 1))"
    by (simp add: env_ok_def)
  have c: "\<not> db_fails env_ok (Create (annotation_fields (hl ''h1'' ''machine learning basics'' 1) 1))"
    by (simp add: env_ok_def)
  from indexHighlight_idempotent [OF a b c, of env_ok] a b c show ?thesis
    by blast
qed

section \<open>C4: queries that are too short\<close>

lemma new_ops_same [simp]: "new_ops w w = []"
  by (simp add: new_ops_def)

lemma status_failed [simp]: "status (failed_response what e) = 500"
  by (simp add: failed_response_def)

lemma search_rejects:
  "(case q_query ps of None \<Rightarrow> True | Some q \<Rightarrow> length (trim q) < 2) \<Longrightarrow>
     search env this u ps w = (invalid_query_response, w)"
  by (auto simp: search_def search_try_def split: option.splits)

lemma advancedSearch_rejects:
  "(case a_query ps of None \<Rightarrow> True | Some q \<Rightarrow> length (trim q) < 2) \<Longrightarrow>
     advancedSearch env u ps w = (invalid_query_response, w)"
  by (auto simp: advancedSearch_def advancedSearch_try_def Let_def split: option.splits)

lemma search_try_status:
  "search_try env this u ps w = (Inr r, w') \<Longrightarrow> q_query ps = Some q \<Longrightarrow> 2 \<le> length (trim q)
     \<Longrightarrow> status r = 200"
  by (auto simp: search_try_def needs_indexing_response_def trim_def
      split: option.splits if_splits prod.splits sum.splits This.splits)

lemma search_accepts:
  "q_query ps = Some q \<Longrightarrow> 2 \<le> length (trim q) \<Longrightarrow> status (fst (search env this u ps w)) \<noteq> 400"
  by (auto simp: search_def split: prod.splits sum.splits dest: search_try_status)

lemma advancedSearch_try_status:
  "advancedSearch_try env u ps w = (Inr r, w') \<Longrightarrow> a_query ps = Some q \<Longrightarrow> 2 \<le> length (trim q)
     \<Longrightarrow> status r = 200"
  by (auto simp: advancedSearch_try_def Let_def trim_def
      split: option.splits if_splits prod.splits sum.splits)

lemma advancedSearch_accepts:
  "a_query ps = Some q \<Longrightarrow> 2 \<le> length (trim q) \<Longrightarrow> status (fst (advancedSearch env u ps w)) \<noteq> 400"
  by (auto simp: advancedSearch_def split: prod.splits sum.splits dest: advancedSearch_try_status)


text \<open>
  Claim C4. A simple or advanced search whose query is missing or has fewer than two
  characters after trimming is answered with status 400, no results and the empty
  pagination, and the world is the one before: no storage call was made. A query of at
  least two characters after trimming is never answered with status 400.
\<close>

theorem short_query_rejection:
  "((case q of None \<Rightarrow> True | Some s \<Rightarrow> length (trim s) < 2) \<longrightarrow>
       status (fst (search env this u (ps\<lparr> q_query := q \<rparr>) w)) = 400
     \<and> results (fst (search env this u (ps\<lparr> q_query := q \<rparr>) w)) = []
     \<and> pagination (fst (search env this u (ps\<lparr> q_query := q \<rparr>) w)) = Pagination 0 (Some 0) 1
     \<and> snd (search env this u (ps\<lparr> q_query := q \<rparr>) w) = w
     \<and> new_ops w (snd (search env this u (ps\<lparr> q_query := q \<rparr>) w)) = []
     \<and> status (fst (advancedSearch env u (aps\<lparr> a_query := q \<rparr>) w)) = 400
     \<and> results (fst (advancedSearch env u (aps\<lparr> a_query := q \<rparr>) w)) = []
     \<and> pagination (fst (advancedSearch env u (aps\<lparr> a_query := q \<rparr>) w)) = Pagination 0 (Some 0) 1
     \<and> snd (advancedSearch env u (aps\<lparr> a_query := q \<rparr>) w) = w
     \<and> new_ops w (snd (advancedSearch env u (aps\<lparr> a_query := q \<rparr>) w)) = [])
   \<and> ((case q of None \<Rightarrow> False | Some s \<Rightarrow> 2 \<le> length (trim s)) \<longrightarrow>
       status (fst (search env this u (ps\<lparr> q_query := q \<rparr>) w)) \<noteq> 400
     \<and> status (fst (advancedSearch env u (aps\<lparr> a_query := q \<rparr>) w)) \<noteq> 400)"
proof (intro conjI impI)
  assume short: "case q of None \<Rightarrow> True | Some s \<Rightarrow> length (trim s) < 2"
  then have s: "search env this u (ps\<lparr> q_query := q \<rparr>) w = (invalid_query_response, w)"
    by (intro search_rejects) simp
  from short have a: "advancedSearch env u (aps\<lparr> a_query := q \<rparr>) w = (invalid_query_response, w)"
    by (intro advancedSearch_rejects) simp
  show "status (fst (search env this u (ps\<lparr> q_query := q \<rparr>) w)) = 400"
    "results (fst (search env this u (ps\<lparr> q_query := q \<rparr>) w)) = []"
    "pagination (fst (search env this u (ps\<lparr> q_query := q \<rparr>) w)) = Pagination 0 (Some 0) 1"
    "snd (search env this u (ps\<lparr> q_query := q \<rparr>) w) = w"
    "new_ops w (snd (search env this u (ps\<lparr> q_query := q \<rparr>) w)) = []"
    by (simp_all add: s invalid_query_response_def empty_pagination_def)
  show "status (fst (advancedSearch env u (aps\<lparr> a_query := q \<rparr>) w)) = 400"
    "results (fst (advancedSearch env u (aps\<lparr> a_query := q \<rparr>) w)) = []"
    "pagination (fst (advancedSearch env u (aps\<lparr> a_query := q \<rparr>) w)) = Pagination 0 (Some 0) 1"
    "snd (advancedSearch env u (aps\<lparr> a_query := q \<rparr>) w) = w"
    "new_ops w (snd (advancedSearch env u (aps\<lparr> a_query := q \<rparr>) w)) = []"
    by (simp_all add: a invalid_query_response_def empty_pagination_def)
next
  assume long: "case q of None \<Rightarrow> False | Some s \<Rightarrow> 2 \<le> length (trim s)"
  then obtain s where q: "q = Some s" and s: "2 \<le> length (trim s)"
    by (cases q) auto
  show "status (fst (search env this u (ps\<lparr> q_query := q \<rparr>) w)) \<noteq> 400"
    using search_accepts [of "ps\<lparr> q_query := q \<rparr>" s] q s by simp
  show "status (fst (advancedSearch env u (aps\<lparr> a_query := q \<rparr>) w)) \<noteq> 400"
    using advancedSearch_accepts [of "aps\<lparr> a_query := q \<rparr>" s] q s by simp
qed

theorem short_query_rejection_witness:
  "length (trim '' a '') < 2
   \<and> status (fst (search env_ok This_controller 1 (simple_query '' a '') world_unindexed)) = 400
   \<and> new_ops world_unindexed
        (snd (advancedSearch env_ok 1 (advanced_query '' a '' True) world_unindexed)) = []
   \<and> 2 \<le> length (trim '' ab '')
   \<and> status (fst (search env_ok This_controller 1 (simple_query '' ab '') world_unindexed)) \<noteq> 400"
proof -
  have a: "length (trim '' a '') < 2" and b: "2 \<le> length (trim '' ab '')"
    by (simp_all add: trim_def is_space_def)
  have e: "simple_query '' a '' = (simple_query '' a '')\<lparr> q_query := Some '' a '' \<rparr>"
    "advanced_query '' a '' True = (advanced_query '' a '' True)\<lparr> a_query := Some '' a '' \<rparr>"
    "simple_query '' ab '' = (simple_query '' ab '')\<lparr> q_query := Some '' ab '' \<rparr>"
    by (simp_all add: simple_query_def advanced_query_def)
  from a short_query_rejection [of "Some '' a ''" env_ok This_controller 1 "simple_query '' a ''"
        world_unindexed "advanced_query '' a '' True"]
  have 1: "status (fst (search env_ok This_controller 1 (simple_query '' a '') world_unindexed)) = 400"
    "new_ops world_unindexed
        (snd (advancedSearch env_ok 1 (advanced_query '' a '' True) world_unindexed)) = []"
    using e by simp_all
  from b short_query_rejection [of "Some '' ab ''" env_ok This_controller 1 "simple_query '' ab ''"
        world_unindexed "advanced_query '' a '' True"]
  have 2: "status (fst (search env_ok This_controller 1 (simple_query '' ab '') world_unindexed)) \<noteq> 400"
    using e by simp
  from a b 1 2 show ?thesis by blast
qed


section \<open>C3: searching without index entries\<close>

lemma no_filter_sel [simp]:
  "by_userId no_filter = None" "by_highlightId no_filter = None" "by_content no_filter = None"
  "by_pdfUuid no_filter = None" "by_contentType no_filter = None"
  "by_createdAt_gte no_filter = None" "by_createdAt_lte no_filter = None"
  "by_pageNumber no_filter = None"
  by (simp_all add: no_filter_def)

lemma filter_pred_owner:
  "filter_pred env (no_filter\<lparr> by_userId := Some u \<rparr>) = Some (\<lambda>d. userId d = u)"
  by (simp add: filter_pred_def fun_eq_iff matches_fields_def)

lemma count_owner:
  "\<not> db_fails env (CountDocuments (no_filter\<lparr> by_userId := Some u \<rparr>)) \<Longrightarrow>
   SearchIndex_countDocuments env (no_filter\<lparr> by_userId := Some u \<rparr>) w =
     (Inr (length (filter (\<lambda>d. userId d = u) (searchIndex w))),
      log_op (CountDocuments (no_filter\<lparr> by_userId := Some u \<rparr>)) w)"
  by (simp add: SearchIndex_countDocuments_def run_query_def filter_pred_owner)

text \<open>What the method does for an owner without index entries, by receiver.\<close>

lemma search_zero_index:
  assumes "q_query ps = Some q" and "2 \<le> length (trim q)"
    and "\<not> db_fails env (CountDocuments (no_filter\<lparr> by_userId := Some u \<rparr>))"
    and "filter (\<lambda>d. userId d = u) (searchIndex w) = []"
  shows "search env This_controller u ps w =
           (needs_indexing_response,
            autoIndexHighlights env u (log_op (CountDocuments (no_filter\<lparr> by_userId := Some u \<rparr>)) w))"
    and "search env This_undefined u ps w =
           (failed_response ''Search failed''
              (TypeError ''Cannot read properties of undefined (reading autoIndexHighlights)''),
            log_op (CountDocuments (no_filter\<lparr> by_userId := Some u \<rparr>)) w)"
  using assms by (auto simp: search_def search_try_def count_owner trim_def)

text \<open>
  Claim C3 says that a valid simple search by an owner without index entries runs the
  backfill and answers with \<open>needsIndexing: true\<close>. The method does so on the controller
  (\<open>search_zero_index\<close>), but the route calls it without a receiver: the request below
  is answered with status 500, \<open>needsIndexing\<close> is absent, and the owner's highlight is
  still not indexed.
\<close>

theorem route_search_zero_index:
  "fst (route_search env_ok 1 (simple_query ''machine'') world_unindexed) =
     failed_response ''Search failed''
       (TypeError ''Cannot read properties of undefined (reading autoIndexHighlights)'')
   \<and> status (fst (route_search env_ok 1 (simple_query ''machine'') world_unindexed)) = 500
   \<and> needsIndexing (fst (route_search env_ok 1 (simple_query ''machine'') world_unindexed)) = None
   \<and> searchIndex (snd (route_search env_ok 1 (simple_query ''machine'') world_unindexed)) = []
   \<and> new_ops world_unindexed (snd (route_search env_ok 1 (simple_query ''machine'') world_unindexed))
       = [CountDocuments (no_filter\<lparr> by_userId := Some 1 \<rparr>)]"
proof -
  have t: "2 \<le> length (trim ''machine'')"
    by (simp add: trim_def is_space_def)
  have "route_search env_ok 1 (simple_query ''machine'') world_unindexed =
      (failed_response ''Search failed''
         (TypeError ''Cannot read properties of undefined (reading autoIndexHighlights)''),
       log_op (CountDocuments (no_filter\<lparr> by_userId := Some 1 \<rparr>)) world_unindexed)"
    unfolding route_search_def
    by (rule search_zero_index(2) [OF _ t])
       (simp_all add: simple_query_def env_ok_def world_unindexed_def world_empty_def)
  then show ?thesis
    by (simp add: failed_response_def new_ops_def log_op_def world_unindexed_def world_empty_def)
qed

section \<open>C10: deleting a highlight that does not exist\<close>

lemma delete_not_found_unreachable: "fst (delete env u i w) \<noteq> Responded 404 NotFound"
  by (auto simp: delete_def delete_try_def Let_def split: prod.splits sum.splits option.splits)

lemma delete_absent:
  assumes "\<not> db_fails env (HighlightFindOneAndDelete i u)"
    and "find (\<lambda>h. uuid h = i \<and> h_userId h = u) (highlights w) = None"
  shows "fst (delete env u i w) = Next (TypeError ''Cannot read properties of null (reading uuid)'')"
  using assms by (simp add: delete_def delete_try_def Highlight_findOneAndDelete_def)

text \<open>
  Claim C10 says that deleting a highlight that does not exist for the owner answers
  404 before the record is used. The handler reads \<open>highlight.uuid\<close> first: the
  request below ends in \<open>next(error)\<close> with a \<open>TypeError\<close>, and no request at all is
  answered with the 404 of line 143 (\<open>delete_not_found_unreachable\<close>).
\<close>

theorem delete_missing_highlight:
  "fst (delete env_ok 1 ''missing'' world_unindexed)
     = Next (TypeError ''Cannot read properties of null (reading uuid)'')
   \<and> fst (delete env_ok 1 ''missing'' world_unindexed) \<noteq> Responded 404 NotFound"
  by (simp add: delete_def delete_try_def Highlight_findOneAndDelete_def env_ok_def
      world_unindexed_def world_empty_def hl_def)

section \<open>C2: queries stay with their owner\<close>

lemma confined_refl [simp]: "confined u w w"
  by (simp add: confined_def new_ops_def)

lemma confined_trans: "confined u w w1 \<Longrightarrow> confined u w1 w2 \<Longrightarrow> confined u w w2"
proof -
  assume a: "confined u w w1" and b: "confined u w1 w2"
  obtain xs where xs: "oplog w1 = oplog w @ xs" "list_all (\<lambda>op. op_owner op = Some u) xs"
    using a unfolding confined_def new_ops_def
    by (metis append_take_drop_id)
  obtain ys where ys: "oplog w2 = oplog w1 @ ys" "list_all (\<lambda>op. op_owner op = Some u) ys"
    using b unfolding confined_def new_ops_def
    by (metis append_take_drop_id)
  show ?thesis
    using xs ys by (simp add: confined_def new_ops_def)
qed

lemma confined_log_op: "op_owner op = Some u \<Longrightarrow> confined u w (log_op op w)"
  by (simp add: confined_def new_ops_def log_op_def)

lemma confined_same_log: "oplog w' = oplog w \<Longrightarrow> confined u w w'"
  by (simp add: confined_def new_ops_def)

lemma oplog_log_op [simp]: "oplog (log_op op w) = oplog w @ [op]"
  by (simp add: log_op_def)

lemma confined_step: "confined u w w1 \<Longrightarrow> oplog w2 = oplog w1 @ [op] \<Longrightarrow> op_owner op = Some u
   \<Longrightarrow> confined u w w2"
  by (rule confined_trans [of u w w1]) (simp_all add: confined_def new_ops_def)

lemma countDocuments_effect:
  "SearchIndex_countDocuments env f w = (r, w') \<Longrightarrow> w' = log_op (CountDocuments f) w"
  by (auto simp: SearchIndex_countDocuments_def split: option.splits)

lemma findOne_effect:
  "SearchIndex_findOne env f w = (r, w') \<Longrightarrow> w' = log_op (FindOne f) w"
  by (auto simp: SearchIndex_findOne_def split: option.splits)

lemma find_effect:
  "SearchIndex_find env f sd sk lim w = (r, w') \<Longrightarrow> w' = log_op (Find f) w"
  by (auto simp: SearchIndex_find_def split: option.splits)

lemma create_effect:
  "SearchIndex_create env f w = (r, w') \<Longrightarrow> oplog w' = oplog w @ [Create f]"
  by (auto simp: SearchIndex_create_def split: if_splits)

lemma Highlight_find_effect:
  "Highlight_find env u w = (r, w') \<Longrightarrow> w' = log_op (HighlightFind u) w"
  by (auto simp: Highlight_find_def split: if_splits)

lemma Highlight_find_owner:
  "Highlight_find env u w = (Inr hs, w') \<Longrightarrow> h \<in> set hs \<Longrightarrow> h_userId h = u"
  by (auto simp: Highlight_find_def split: if_splits)

lemma PDF_find_effect:
  "PDF_find env is u w = (r, w') \<Longrightarrow> w' = log_op (PdfFind is u) w"
  by (auto simp: PDF_find_def split: if_splits)

lemma by_userId_by_highlight [simp]: "by_userId (by_highlight h u) = Some u"
  by (simp add: by_highlight_def)

lemma userId_annotation_fields [simp]: "userId (annotation_fields h u) = u"
  by (simp add: annotation_fields_def)

lemma autoIndex_loop_confined: "confined u w (snd (autoIndex_loop env u hs w))"
proof (induction hs arbitrary: w)
  case Nil
  then show ?case by simp
next
  case (Cons h hs)
  obtain r w1 where f: "SearchIndex_findOne env (by_highlight (uuid h) u) w = (r, w1)"
    by (cases "SearchIndex_findOne env (by_highlight (uuid h) u) w")
  then have c1: "confined u w w1"
    by (auto dest!: findOne_effect intro: confined_log_op)
  obtain r2 w2 where c: "SearchIndex_create env (annotation_fields h u) w1 = (r2, w2)"
    by (cases "SearchIndex_create env (annotation_fields h u) w1")
  then have c2: "confined u w w2"
    using c1 by (auto dest!: create_effect intro: confined_step)
  show ?case
    using f c c1 c2 Cons.IH [of w1] Cons.IH [of w2]
    by (auto split: sum.splits option.splits intro: confined_trans)
qed

lemma autoIndexHighlights_confined: "confined u w (autoIndexHighlights env u w)"
proof -
  obtain r w1 where f: "Highlight_find env u w = (r, w1)"
    by (cases "Highlight_find env u w")
  then have "confined u w w1"
    by (auto dest!: Highlight_find_effect intro: confined_log_op)
  then show ?thesis
    using f autoIndex_loop_confined [of u w1 env]
    by (auto simp: autoIndexHighlights_def autoIndexHighlights_try_def split: sum.splits
        intro: confined_trans)
qed

lemma pdf_names_confined: "confined u w (snd (pdf_names env u rs w))"
  by (auto simp: pdf_names_def Let_def split: prod.splits sum.splits
      dest!: PDF_find_effect intro: confined_log_op)

lemma pdf_names_searchIndex [simp]: "searchIndex (snd (pdf_names env u rs w)) = searchIndex w"
  by (auto simp: pdf_names_def Let_def log_op_def split: prod.splits sum.splits
      dest!: PDF_find_effect)


lemma by_userId_search_filter [simp]: "by_userId (search_filter u q ps) = Some u"
  by (simp add: search_filter_def Let_def)

lemma by_userId_advanced_filter [simp]: "by_userId (advanced_filter u q ps df dt) = Some u"
  by (simp add: advanced_filter_def Let_def split: option.splits)

lemma by_userId_suggestion_filter [simp]: "by_userId (suggestion_filter u q) = Some u"
  by (simp add: suggestion_filter_def)

lemma search_try_confined: "confined u w (snd (search_try env this u ps w))"
proof -
  let ?c = "CountDocuments (no_filter\<lparr> by_userId := Some u \<rparr>)"
  have c1: "confined u w (log_op ?c w)"
    by (simp add: confined_log_op)
  have c2: "confined u w (autoIndexHighlights env u (log_op ?c w))"
    using c1 autoIndexHighlights_confined by (rule confined_trans)
  have c3: "confined u w (log_op (Find (search_filter u q ps)) (log_op ?c w))" for q
    using c1 by (rule confined_trans) (simp add: confined_log_op)
  have c4: "confined u w (snd (pdf_names env u rs (log_op (Find (search_filter u q ps)) (log_op ?c w))))"
    for q rs
    using c3 pdf_names_confined by (rule confined_trans)
  show ?thesis
    using c1 c2 c3 c4
    by (auto simp: search_try_def split: option.splits prod.splits sum.splits This.splits
        dest!: countDocuments_effect find_effect)
       (metis snd_conv)+
qed

lemma search_confined: "confined u w (snd (search env this u ps w))"
  using search_try_confined [of u w env this ps]
  by (auto simp: search_def split: prod.splits sum.splits)


lemma confined_pdf_names:
  "pdf_names env u rs w1 = (m, w2) \<Longrightarrow> confined u w w1 \<Longrightarrow> confined u w w2"
  using pdf_names_confined [of u w1 env rs] by (auto intro: confined_trans)

lemma advancedSearch_try_confined:
  "advancedSearch_try env u ps w = (r, w') \<Longrightarrow> confined u w w'"
proof -
  have c1: "confined u w (log_op (CountDocuments (advanced_filter u q ps df dt))
                           (log_op (Find (advanced_filter u q ps df dt)) w))" for q df dt
    by (intro confined_trans [OF confined_log_op confined_log_op]) simp_all
  show "advancedSearch_try env u ps w = (r, w') \<Longrightarrow> confined u w w'"
    by (auto simp: advancedSearch_try_def Let_def c1
        split: option.splits prod.splits sum.splits if_splits
        dest!: countDocuments_effect find_effect elim!: confined_pdf_names)
qed

lemma advancedSearch_confined: "confined u w (snd (advancedSearch env u ps w))"
  using advancedSearch_try_confined [of env u ps w]
  by (auto simp: advancedSearch_def split: prod.splits sum.splits)

lemma getSuggestions_confined: "confined u w (snd (getSuggestions env u q w))"
  by (auto simp: getSuggestions_def Let_def split: option.splits prod.splits sum.splits
      dest!: find_effect intro: confined_log_op)

subsection \<open>What a query returns\<close>

lemma window_subset: "set (window sk lim ds) \<subseteq> set ds"
  by (auto simp: window_def dest: in_set_takeD in_set_dropD)

lemma matches_fields_owner: "matches_fields f d \<Longrightarrow> by_userId f = Some u \<Longrightarrow> userId d = u"
  by (simp add: matches_fields_def)

lemma run_query_owner:
  "run_query env op f = Some p \<Longrightarrow> by_userId f = Some u \<Longrightarrow> p d \<Longrightarrow> userId d = u"
  by (auto simp: run_query_def filter_pred_def split: if_splits option.splits
      dest: matches_fields_owner)

lemma find_sound:
  assumes "SearchIndex_find env f sd sk lim w = (Inr rs, w')" and "by_userId f = Some u"
    and "d \<in> set rs"
  shows "d \<in> set (searchIndex w) \<and> userId d = u"
proof -
  from assms(1) obtain p where p: "run_query env (Find f) f = Some p"
    and rs: "rs = window sk lim ((if sd then sort_createdAt_desc else id) (filter p (searchIndex w)))"
    by (auto simp: SearchIndex_find_def split: option.splits if_splits)
  have "set rs \<subseteq> set ((if sd then sort_createdAt_desc else id) (filter p (searchIndex w)))"
    unfolding rs by (rule window_subset)
  also have "\<dots> = set (filter p (searchIndex w))"
    by (simp add: sort_createdAt_desc_def)
  finally have "set rs \<subseteq> set (filter p (searchIndex w))" .
  with assms(3) have "d \<in> set (searchIndex w)" "p d"
    by auto
  then show ?thesis
    using run_query_owner [OF p assms(2)] by simp
qed

lemma renders_format_result [simp]: "renders (format_result m hc d) d"
  by (simp add: renders_def format_result_def)

lemma format_results_renders:
  "format_results env m q ds = Inr rs \<Longrightarrow> r \<in> set rs \<Longrightarrow> \<exists>d \<in> set ds. renders r d"
  by (induction ds arbitrary: rs) (auto split: sum.splits)

lemma page_owned:
  assumes "SearchIndex_find env f sd sk lim w1 = (Inr rs, w2)" and "by_userId f = Some u"
    and "format_results env m q rs = Inr frs" and "r \<in> set frs"
    and "searchIndex w1 = searchIndex w"
  shows "\<exists>d \<in> set (searchIndex w). userId d = u \<and> renders r d"
proof -
  from format_results_renders [OF assms(3,4)] obtain d where "d \<in> set rs" "renders r d"
    by blast
  with find_sound [OF assms(1,2)] assms(5) show ?thesis
    by auto
qed

lemma search_try_owned:
  assumes "search_try env this u ps w = (Inr resp, w')" and "r \<in> set (results resp)"
  shows "\<exists>d \<in> set (searchIndex w). userId d = u \<and> renders r d"
  using assms
  by (auto simp: search_try_def invalid_query_response_def needs_indexing_response_def
      split: option.splits prod.splits sum.splits This.splits if_splits
      dest!: countDocuments_effect dest: page_owned [where u = u and r = r and w = w])

lemma search_owned:
  "r \<in> set (results (fst (search env this u ps w))) \<Longrightarrow>
     \<exists>d \<in> set (searchIndex w). userId d = u \<and> renders r d"
  using search_try_owned [of env this u ps w]
  by (auto simp: search_def failed_response_def split: prod.splits sum.splits)

lemma advancedSearch_try_owned:
  assumes "advancedSearch_try env u ps w = (Inr resp, w')" and "r \<in> set (results resp)"
  shows "\<exists>d \<in> set (searchIndex w). userId d = u \<and> renders r d"
  using assms
  by (auto simp: advancedSearch_try_def invalid_query_response_def Let_def
      split: option.splits prod.splits sum.splits if_splits
      dest!: countDocuments_effect dest: page_owned [where u = u and r = r and w = w])

lemma advancedSearch_owned:
  "r \<in> set (results (fst (advancedSearch env u ps w))) \<Longrightarrow>
     \<exists>d \<in> set (searchIndex w). userId d = u \<and> renders r d"
  using advancedSearch_try_owned [of env u ps w]
  by (auto simp: advancedSearch_def failed_response_def split: prod.splits sum.splits)

lemma set_add_all_set: "set (set_add_all acc xs) = set acc \<union> set xs"
  by (induction xs arbitrary: acc) auto

lemma getSuggestions_owned:
  assumes "s \<in> set (fst (getSuggestions env u q w))"
  shows "\<exists>d \<in> set (searchIndex w). userId d = u \<and>
           sg_text s \<in> set (map cleanWord (split_whitespace (content d)))"
proof -
  from assms obtain q' rs w1 where q: "q = Some q'"
    and f: "SearchIndex_find env (suggestion_filter u q') False 0 5 w = (Inr rs, w1)"
    and s: "s \<in> set (map (\<lambda>t. Suggestion t 1) (take 5 (set_add_all []
               (concat (map (\<lambda>r. content_suggestions (toLowerCase q') (content r)) rs)))))"
    by (auto simp: getSuggestions_def Let_def split: option.splits prod.splits sum.splits if_splits)
  from s obtain d where d: "d \<in> set rs"
    and t: "sg_text s \<in> set (content_suggestions (toLowerCase q') (content d))"
    by (auto dest!: in_set_takeD simp: set_add_all_set)
  from find_sound [OF f _ d] have "d \<in> set (searchIndex w)" "userId d = u"
    by simp_all
  with t show ?thesis
    by (auto simp: content_suggestions_def)
qed


lemma confined_ops: "confined u w w' \<Longrightarrow> list_all (\<lambda>op. op_owner op = Some u) (new_ops w w')"
  by (simp add: confined_def)

lemma other_owner_absent:
  assumes owned: "\<forall>r \<in> set rs. \<exists>d \<in> set ds. userId d = u \<and> renders r d"
    and dist: "distinct (map doc_id ds)" and d: "d \<in> set ds" "userId d \<noteq> u"
  shows "doc_id d \<notin> r_id ` set rs"
proof
  assume "doc_id d \<in> r_id ` set rs"
  then obtain r where r: "r \<in> set rs" "r_id r = doc_id d"
    by auto
  from owned r(1) obtain d' where d': "d' \<in> set ds" "userId d' = u" "renders r d'"
    by blast
  then have "doc_id d' = doc_id d"
    using r(2) by (simp add: renders_def)
  with dist d(1) d'(1) have "d' = d"
    by (meson distinct_map inj_onD)
  with d(2) d'(2) show False
    by simp
qed

text \<open>
  Claim C2. Whatever the request, every storage call that \<open>search\<close>, \<open>advancedSearch\<close>
  and \<open>getSuggestions\<close> make for owner \<open>u\<close> is confined to \<open>u\<close>: each filter carries
  \<open>userId = u\<close>. Every result of a search shows an index entry owned by \<open>u\<close>, every
  suggestion is a cleaned word of an entry owned by \<open>u\<close>, and, identifiers being
  distinct, no entry of another owner has its identifier among the results.
\<close>

theorem scoped_isolation:
  "list_all (\<lambda>op. op_owner op = Some u) (new_ops w (snd (search env this u ps w)))
   \<and> list_all (\<lambda>op. op_owner op = Some u) (new_ops w (snd (advancedSearch env u aps w)))
   \<and> list_all (\<lambda>op. op_owner op = Some u) (new_ops w (snd (getSuggestions env u q w)))
   \<and> (\<forall>r \<in> set (results (fst (search env this u ps w))).
         \<exists>d \<in> set (searchIndex w). userId d = u \<and> renders r d)
   \<and> (\<forall>r \<in> set (results (fst (advancedSearch env u aps w))).
         \<exists>d \<in> set (searchIndex w). userId d = u \<and> renders r d)
   \<and> (\<forall>s \<in> set (fst (getSuggestions env u q w)).
         \<exists>d \<in> set (searchIndex w). userId d = u \<and>
           sg_text s \<in> set (map cleanWord (split_whitespace (content d))))
   \<and> (distinct (map doc_id (searchIndex w)) \<longrightarrow>
        (\<forall>d \<in> set (searchIndex w). userId d \<noteq> u \<longrightarrow>
           doc_id d \<notin> r_id ` set (results (fst (search env this u ps w))) \<and>
           doc_id d \<notin> r_id ` set (results (fst (advancedSearch env u aps w)))))"
proof (intro conjI ballI impI)
  show "list_all (\<lambda>op. op_owner op = Some u) (new_ops w (snd (search env this u ps w)))"
    by (rule confined_ops [OF search_confined])
  show "list_all (\<lambda>op. op_owner op = Some u) (new_ops w (snd (advancedSearch env u aps w)))"
    by (rule confined_ops [OF advancedSearch_confined])
  show "list_all (\<lambda>op. op_owner op = Some u) (new_ops w (snd (getSuggestions env u q w)))"
    by (rule confined_ops [OF getSuggestions_confined])
next
  fix r assume "r \<in> set (results (fst (search env this u ps w)))"
  then show "\<exists>d \<in> set (searchIndex w). userId d = u \<and> renders r d"
    by (rule search_owned)
next
  fix r assume "r \<in> set (results (fst (advancedSearch env u aps w)))"
  then show "\<exists>d \<in> set (searchIndex w). userId d = u \<and> renders r d"
    by (rule advancedSearch_owned)
next
  fix s assume "s \<in> set (fst (getSuggestions env u q w))"
  then show "\<exists>d \<in> set (searchIndex w). userId d = u \<and>
           sg_text s \<in> set (map cleanWord (split_whitespace (content d)))"
    by (rule getSuggestions_owned)
next
  fix d assume d: "distinct (map doc_id (searchIndex w))" "d \<in> set (searchIndex w)" "userId d \<noteq> u"
  have s: "\<forall>r \<in> set (results (fst (search env this u ps w))).
             \<exists>d \<in> set (searchIndex w). userId d = u \<and> renders r d"
    using search_owned by blast
  have a: "\<forall>r \<in> set (results (fst (advancedSearch env u aps w))).
             \<exists>d \<in> set (searchIndex w). userId d = u \<and> renders r d"
    using advancedSearch_owned by blast
  show "doc_id d \<notin> r_id ` set (results (fst (search env this u ps w)))"
    by (rule other_owner_absent [OF s d])
  show "doc_id d \<notin> r_id ` set (results (fst (advancedSearch env u aps w)))"
    by (rule other_owner_absent [OF a d])
qed

theorem scoped_isolation_witness:
  "map r_id (results (fst (search env_ok This_controller 1 (simple_query ''fox'') world_two))) = [0]
   \<and> map r_id (results (fst (advancedSearch env_ok 1 (advanced_query ''fox'' False) world_two))) = [0]
   \<and> map sg_text (fst (getSuggestions env_ok 2 (Some ''fo'') world_two)) = [''fox'']
   \<and> distinct (map doc_id (searchIndex world_two))
   \<and> map userId (searchIndex world_two) = [1, 2]
   \<and> new_ops world_two (snd (search env_ok This_controller 1 (simple_query ''fox'') world_two)) \<noteq> []
   \<and> list_all (\<lambda>d. userId d \<noteq> 1 \<longrightarrow>
         doc_id d \<notin> r_id ` set (results (fst (search env_ok This_controller 1
                                     (simple_query ''fox'') world_two))))
        (searchIndex world_two)
   \<and> list_all (\<lambda>s. \<exists>d \<in> set (searchIndex world_two). userId d = 2 \<and>
           sg_text s \<in> set (map cleanWord (split_whitespace (content d))))
        (fst (getSuggestions env_ok 2 (Some ''fo'') world_two))
   \<and> list_all (\<lambda>op. op_owner op = Some 1)
        (new_ops world_two (snd (search env_ok This_controller 1 (simple_query ''fox'') world_two)))"
proof -
  have a: "map r_id (results (fst (search env_ok This_controller 1 (simple_query ''fox'') world_two))) = [0]"
    by code_simp
  have b: "map r_id (results (fst (advancedSearch env_ok 1 (advanced_query ''fox'' False) world_two))) = [0]"
    by code_simp
  have c: "map sg_text (fst (getSuggestions env_ok 2 (Some ''fo'') world_two)) = [''fox'']"
    by code_simp
  have d: "distinct (map doc_id (searchIndex world_two))"
    "map userId (searchIndex world_two) = [1, 2]"
    by (simp_all add: world_two_def stored_def)
  have e: "new_ops world_two (snd (search env_ok This_controller 1 (simple_query ''fox'') world_two)) \<noteq> []"
    by code_simp
  note t = scoped_isolation [of 1 world_two env_ok This_controller "simple_query ''fox''"
      "advanced_query ''fox'' False" "Some ''fo''"]
  note t2 = scoped_isolation [of 2 world_two env_ok This_controller "simple_query ''fox''"
      "advanced_query ''fox'' False" "Some ''fo''"]
  have f: "list_all (\<lambda>d. userId d \<noteq> 1 \<longrightarrow>
         doc_id d \<notin> r_id ` set (results (fst (search env_ok This_controller 1
                                     (simple_query ''fox'') world_two))))
        (searchIndex world_two)"
    unfolding list_all_iff
    using t [THEN conjunct2, THEN conjunct2, THEN conjunct2, THEN conjunct2, THEN conjunct2,
        THEN conjunct2] d(1)
    by blast
  have g: "list_all (\<lambda>s. \<exists>d \<in> set (searchIndex world_two). userId d = 2 \<and>
           sg_text s \<in> set (map cleanWord (split_whitespace (content d))))
        (fst (getSuggestions env_ok 2 (Some ''fo'') world_two))"
    unfolding list_all_iff
    by (rule t2 [THEN conjunct2, THEN conjunct2, THEN conjunct2, THEN conjunct2, THEN conjunct2,
        THEN conjunct1])
  have h: "list_all (\<lambda>op. op_owner op = Some 1)
        (new_ops world_two (snd (search env_ok This_controller 1 (simple_query ''fox'') world_two)))"
    by (rule t [THEN conjunct1])
  show ?thesis
    by (intro conjI a b c d e f g h)
qed

section \<open>C5: removing a highlight from the index\<close>

lemma remove_first_cases:
  "remove_first p ds = ds \<and> filter p ds = [] \<or>
   (\<exists>pre d post. ds = pre @ d # post \<and> remove_first p ds = pre @ post \<and> p d
      \<and> filter p pre = [])"
proof (induction ds)
  case Nil
  then show ?case by simp
next
  case (Cons a ds)
  show ?case
  proof (cases "p a")
    case True
    then have "a # ds = [] @ a # ds \<and> remove_first p (a # ds) = [] @ ds \<and> p a \<and> filter p [] = []"
      by simp
    then show ?thesis by blast
  next
    case False
    from Cons.IH show ?thesis
    proof
      assume "remove_first p ds = ds \<and> filter p ds = []"
      with False show ?thesis by simp
    next
      assume "\<exists>pre d post. ds = pre @ d # post \<and> remove_first p ds = pre @ post \<and> p d
        \<and> filter p pre = []"
      then obtain pre d post where "ds = pre @ d # post" "remove_first p ds = pre @ post" "p d"
        "filter p pre = []"
        by blast
      with False have "a # ds = (a # pre) @ d # post \<and> remove_first p (a # ds) = (a # pre) @ post
          \<and> p d \<and> filter p (a # pre) = []"
        by simp
      then show ?thesis by blast
    qed
  qed
qed

lemma removeHighlightIndex_store:
  "searchIndex (removeHighlightIndex env i u w) =
     (if db_fails env (DeleteOne (by_highlight i u)) then searchIndex w
      else remove_first (\<lambda>d. userId d = u \<and> highlightId d = Some i) (searchIndex w))"
  by (simp add: removeHighlightIndex_def removeHighlightIndex_try_def SearchIndex_deleteOne_def
      run_query_def filter_pred_by_highlight)

lemma filter_remove_first_other:
  "(\<And>d. q d \<Longrightarrow> \<not> p d) \<Longrightarrow> filter q (remove_first p ds) = filter q ds"
  by (induction ds) auto

lemma length_filter_remove_first:
  "length (filter p (remove_first p ds)) = length (filter p ds) - 1"
  by (induction ds) auto

lemma length_filter_remove_first_le:
  "length (filter q (remove_first p ds)) \<le> length (filter q ds)"
  by (induction ds) (auto simp: le_Suc_eq)

lemma removeHighlightIndex_keeps_unique:
  assumes "length (units_for h' u' w) \<le> 1"
  shows "length (units_for h' u' (removeHighlightIndex env i u w)) \<le> 1"
proof (cases "db_fails env (DeleteOne (by_highlight i u))")
  case True
  with assms show ?thesis
    by (simp add: units_for_def removeHighlightIndex_store)
next
  case False
  have "length (units_for h' u' (removeHighlightIndex env i u w)) \<le> length (units_for h' u' w)"
    using False unfolding units_for_def removeHighlightIndex_store
    by (simp add: length_filter_remove_first_le)
  with assms show ?thesis
    by simp
qed


lemma annotations_only_indexHighlight:
  "annotations_only w \<Longrightarrow> annotations_only (indexHighlight env h u w)"
  by (simp add: annotations_only_def indexHighlight_store)

lemma list_all_remove_first: "list_all q ds \<Longrightarrow> list_all q (remove_first p ds)"
  by (induction ds) auto

lemma annotations_only_removeHighlightIndex:
  "annotations_only w \<Longrightarrow> annotations_only (removeHighlightIndex env i u w)"
  by (simp add: annotations_only_def removeHighlightIndex_store list_all_remove_first)

lemma store_all_index:
  "searchIndex (store_all fs w) = searchIndex w @ map (\<lambda>(f, n). stored f n n)
      (zip fs [clock w ..< clock w + length fs])"
proof (induction fs arbitrary: w)
  case Nil
  then show ?case by simp
next
  case (Cons f fs)
  have "[clock w ..< clock w + length (f # fs)] = clock w # [Suc (clock w) ..< Suc (clock w) + length fs]"
    by (simp add: upt_rec)
  then show ?case
    by (simp add: Cons.IH)
qed

lemma annotations_only_indexPdf:
  assumes "annotations_only w"
  shows "annotations_only (snd (indexPdf env u pid w))"
proof -
  have "list_all (\<lambda>d. highlightId d \<noteq> None \<longrightarrow> contentType d = annotation)
          (map (\<lambda>(f, n). stored f n n) (zip (indexEntries pid u) ns))" for ns
    by (auto simp: list_all_iff indexEntries_def stored_def dest!: set_zip_leftD)
  then show ?thesis
    using assms
    by (auto simp: indexPdf_def annotations_only_def PDF_findOne_def SearchIndex_findOne_def
        SearchIndex_insertMany_def store_all_index
        split: prod.splits sum.splits option.splits if_splits)
qed

text \<open>The index a search reads is the one it was given.\<close>

lemma search_results_in_index:
  "r \<in> set (results (fst (search env this u ps w))) \<Longrightarrow>
     \<exists>d \<in> set (searchIndex w). userId d = u \<and> highlightId d = r_highlightId r"
  by (drule search_owned) (auto simp: renders_def)

text \<open>
  Claim C5, amended. \<open>removeHighlightIndex\<close> leaves the index as it is or removes exactly
  one entry, which has the given \<open>highlightId\<close> and owner (and is an annotation when only
  annotations carry a \<open>highlightId\<close>); all other entries stay in place, and every
  \<open>pdf_text\<close> entry stays. After \<open>indexHighlight\<close> and then \<open>removeHighlightIndex\<close> for
  a highlight, when the removal goes through, no entry of that highlight is left and no
  search of the owner returns a result with its \<open>highlightId\<close>. As stated, the claim
  asks for no annotation result at all for the highlight's text, which fails when
  another annotation of the owner contains that text.
\<close>

theorem removal_frame:
  "(searchIndex (removeHighlightIndex env i u w) = searchIndex w
      \<or> (\<exists>pre d post. searchIndex w = pre @ d # post
            \<and> searchIndex (removeHighlightIndex env i u w) = pre @ post
            \<and> highlightId d = Some i \<and> userId d = u
            \<and> (annotations_only w \<longrightarrow> contentType d = annotation)))
   \<and> (annotations_only w \<longrightarrow>
         filter (\<lambda>d. contentType d = pdf_text) (searchIndex (removeHighlightIndex env i u w))
           = filter (\<lambda>d. contentType d = pdf_text) (searchIndex w))
   \<and> (length (units_for (uuid h) u w) \<le> 1
         \<and> \<not> db_fails env (DeleteOne (by_highlight (uuid h) u)) \<longrightarrow>
         units_for (uuid h) u (removeHighlightIndex env (uuid h) u (indexHighlight env0 h u w)) = []
       \<and> (\<forall>r \<in> set (results (fst (search env1 this u ps
                (removeHighlightIndex env (uuid h) u (indexHighlight env0 h u w))))).
             r_highlightId r \<noteq> Some (uuid h)))"
proof (intro conjI impI ballI)
  let ?p = "\<lambda>d. userId d = u \<and> highlightId d = Some i"
  show "searchIndex (removeHighlightIndex env i u w) = searchIndex w
      \<or> (\<exists>pre d post. searchIndex w = pre @ d # post
            \<and> searchIndex (removeHighlightIndex env i u w) = pre @ post
            \<and> highlightId d = Some i \<and> userId d = u
            \<and> (annotations_only w \<longrightarrow> contentType d = annotation))"
  proof (cases "db_fails env (DeleteOne (by_highlight i u))")
    case True
    then show ?thesis by (simp add: removeHighlightIndex_store)
  next
    case False
    from remove_first_cases [of ?p "searchIndex w"] show ?thesis
    proof
      assume "remove_first ?p (searchIndex w) = searchIndex w \<and> filter ?p (searchIndex w) = []"
      with False show ?thesis by (simp add: removeHighlightIndex_store)
    next
      assume "\<exists>pre d post. searchIndex w = pre @ d # post
          \<and> remove_first ?p (searchIndex w) = pre @ post \<and> ?p d \<and> filter ?p pre = []"
      then obtain pre d post where x: "searchIndex w = pre @ d # post"
          "remove_first ?p (searchIndex w) = pre @ post" "?p d"
        by blast
      then have "annotations_only w \<longrightarrow> contentType d = annotation"
        by (simp add: annotations_only_def)
      with x False show ?thesis
        by (auto simp: removeHighlightIndex_store)
    qed
  qed
next
  assume a: "annotations_only w"
  have "filter (\<lambda>d. contentType d = pdf_text) (remove_first (\<lambda>d. userId d = u \<and> highlightId d = Some i) ds)
      = filter (\<lambda>d. contentType d = pdf_text) ds"
    if "list_all (\<lambda>d. highlightId d \<noteq> None \<longrightarrow> contentType d = annotation) ds" for ds
    using that by (induction ds) auto
  from this [OF a [unfolded annotations_only_def]]
  show "filter (\<lambda>d. contentType d = pdf_text) (searchIndex (removeHighlightIndex env i u w))
           = filter (\<lambda>d. contentType d = pdf_text) (searchIndex w)"
    by (simp add: removeHighlightIndex_store)
next
  assume h: "length (units_for (uuid h) u w) \<le> 1 \<and> \<not> db_fails env (DeleteOne (by_highlight (uuid h) u))"
  let ?w1 = "indexHighlight env0 h u w"
  from h have "length (units_for (uuid h) u w) \<le> 1" ..
  then have "length (units_for (uuid h) u ?w1) \<le> 1"
    by (rule indexHighlight_keeps_unique)
  then show e: "units_for (uuid h) u (removeHighlightIndex env (uuid h) u ?w1) = []"
    using h length_filter_remove_first [of "\<lambda>d. userId d = u \<and> highlightId d = Some (uuid h)" "searchIndex ?w1"]
    by (simp add: units_for_def removeHighlightIndex_store conj_commute)
  fix r assume "r \<in> set (results (fst (search env1 this u ps (removeHighlightIndex env (uuid h) u ?w1))))"
  from search_results_in_index [OF this] e
  show "r_highlightId r \<noteq> Some (uuid h)"
    by (auto simp: units_for_def filter_empty_conv)
qed


theorem round_trip_counterexample:
  "map r_contentType (results (fst (search env_ok This_controller 1
       (simple_query (highlightedText highlight_a))
       (removeHighlightIndex env_ok (uuid highlight_a) 1
          (indexHighlight env_ok highlight_a 1 world_b))))) = [annotation, pdf_text]"
  by code_simp

theorem removal_frame_witness:
  "annotations_only world_b
   \<and> length (units_for (uuid highlight_a) 1 world_b) \<le> 1
   \<and> \<not> db_fails env_ok (DeleteOne (by_highlight (uuid highlight_a) 1))
   \<and> results (fst (search env_ok This_controller 1 (simple_query ''fox'')
         (removeHighlightIndex env_ok (uuid highlight_a) 1
            (indexHighlight env_ok highlight_a 1 world_b)))) \<noteq> []
   \<and> filter (\<lambda>d. contentType d = pdf_text)
         (searchIndex (removeHighlightIndex env_ok (uuid highlight_a) 1 world_b))
       = filter (\<lambda>d. contentType d = pdf_text) (searchIndex world_b)
   \<and> units_for (uuid highlight_a) 1
         (removeHighlightIndex env_ok (uuid highlight_a) 1
            (indexHighlight env_ok highlight_a 1 world_b)) = []
   \<and> list_all (\<lambda>r. r_highlightId r \<noteq> Some (uuid highlight_a))
         (results (fst (search env_ok This_controller 1 (simple_query ''fox'')
                (removeHighlightIndex env_ok (uuid highlight_a) 1
                   (indexHighlight env_ok highlight_a 1 world_b)))))"
proof -
  have a: "annotations_only world_b"
    by (simp add: annotations_only_def world_b_def stored_def annotation_fields_def)
  have b: "length (units_for (uuid highlight_a) 1 world_b) \<le> 1"
    by (simp add: units_for_def world_b_def stored_def annotation_fields_def highlight_a_def hl_def)
  have c: "\<not> db_fails env_ok (DeleteOne (by_highlight (uuid highlight_a) 1))"
    by (simp add: env_ok_def)
  have d: "results (fst (search env_ok This_controller 1 (simple_query ''fox'')
         (removeHighlightIndex env_ok (uuid highlight_a) 1
            (indexHighlight env_ok highlight_a 1 world_b)))) \<noteq> []"
    by code_simp
  note t = removal_frame [of env_ok "uuid highlight_a" 1 world_b highlight_a env_ok env_ok
      This_controller "simple_query ''fox''"]
  from a b c d t show ?thesis
    unfolding list_all_iff by blast
qed

section \<open>C6: a failure during the backfill\<close>

lemma autoIndex_loop_append:
  "autoIndex_loop env u (xs @ ys) w =
     (case autoIndex_loop env u xs w of
        (Inl e, w1) \<Rightarrow> (Inl e, w1)
      | (Inr _, w1) \<Rightarrow> autoIndex_loop env u ys w1)"
  by (induction xs arbitrary: w) (auto split: prod.splits sum.splits option.splits)

lemma autoIndex_loop_fails_at:
  assumes "units_for (uuid h) u w = []"
    and "\<not> db_fails env (FindOne (by_highlight (uuid h) u))"
    and "db_fails env (Create (annotation_fields h u))"
  shows "autoIndex_loop env u (h # post) w =
           (Inl (StorageError (Create (annotation_fields h u))),
            log_op (Create (annotation_fields h u)) (log_op (FindOne (by_highlight (uuid h) u)) w))"
  using assms
  by (simp add: SearchIndex_findOne_def run_query_def filter_pred_by_highlight
      SearchIndex_create_def units_for_def find_None_filter [THEN iffD2] conj_commute)

text \<open>
  Claim C6, amended. When, during \<open>autoIndexHighlights\<close>, the highlights before \<open>h\<close>
  were handled and creating the entry of \<open>h\<close> is rejected, the backfill ends there:
  the index is as it was after the earlier highlights, the only storage calls after
  them are the lookup and the rejected creation for \<open>h\<close>, so the highlights after
  \<open>h\<close> are not attempted. The error stays inside \<open>autoIndexHighlights\<close>: a search on
  the controller by an owner without entries answers with \<open>needsIndexing: true\<close>
  whatever is rejected during the backfill. As stated, the claim has the remaining
  highlights attempted.
\<close>

theorem backfill_stops_at_failure:
  assumes "filter (\<lambda>h. h_userId h = u) (highlights w) = pre @ h # post"
    and "\<not> db_fails env (HighlightFind u)"
    and "autoIndex_loop env u pre (log_op (HighlightFind u) w) = (Inr (), w1)"
    and "units_for (uuid h) u w1 = []"
    and "\<not> db_fails env (FindOne (by_highlight (uuid h) u))"
    and "db_fails env (Create (annotation_fields h u))"
  shows "fst (autoIndexHighlights_try env u w) = Inl (StorageError (Create (annotation_fields h u)))
     \<and> searchIndex (autoIndexHighlights env u w) = searchIndex w1
     \<and> new_ops w1 (autoIndexHighlights env u w)
          = [FindOne (by_highlight (uuid h) u), Create (annotation_fields h u)]
     \<and> (q_query ps = Some q \<and> 2 \<le> length (trim q)
          \<and> \<not> db_fails env (CountDocuments (no_filter\<lparr> by_userId := Some u \<rparr>))
          \<and> filter (\<lambda>d. userId d = u) (searchIndex w') = [] \<longrightarrow>
         fst (search env This_controller u ps w') = needs_indexing_response)"
proof -
  have "autoIndexHighlights_try env u w =
      (Inl (StorageError (Create (annotation_fields h u))),
       log_op (Create (annotation_fields h u)) (log_op (FindOne (by_highlight (uuid h) u)) w1))"
    using assms(1-3) autoIndex_loop_fails_at [OF assms(4-6), of post]
    by (simp add: autoIndexHighlights_try_def Highlight_find_def autoIndex_loop_append)
  then show ?thesis
    using search_zero_index(1) [of ps q env u w']
    by (simp add: autoIndexHighlights_def new_ops_def)
qed


theorem backfill_abort_counterexample:
  "new_ops world_hh
     (autoIndexHighlights (env_reject (Create (annotation_fields (hl ''h1'' ''alpha beta'' 1) 1))) 1 world_hh)
     = [HighlightFind 1, FindOne (by_highlight ''h1'' 1),
        Create (annotation_fields (hl ''h1'' ''alpha beta'' 1) 1)]
   \<and> units_for ''h2'' 1
        (autoIndexHighlights (env_reject (Create (annotation_fields (hl ''h1'' ''alpha beta'' 1) 1))) 1 world_hh)
       = []
   \<and> length (units_for ''h2'' 1 (autoIndexHighlights env_ok 1 world_hh)) = 1"
  by code_simp

theorem backfill_stops_at_failure_witness:
  "filter (\<lambda>h. h_userId h = 1) (highlights world_hh)
      = [] @ hl ''h1'' ''alpha beta'' 1 # [hl ''h2'' ''gamma delta'' 1]
   \<and> fst (autoIndexHighlights_try
        (env_reject (Create (annotation_fields (hl ''h1'' ''alpha beta'' 1) 1))) 1 world_hh)
       = Inl (StorageError (Create (annotation_fields (hl ''h1'' ''alpha beta'' 1) 1)))
   \<and> fst (search (env_reject (Create (annotation_fields (hl ''h1'' ''alpha beta'' 1) 1)))
             This_controller 1 (simple_query ''alpha'') world_hh) = needs_indexing_response"
proof -
  let ?h = "hl ''h1'' ''alpha beta'' 1"
  let ?env = "env_reject (Create (annotation_fields ?h 1))"
  have a: "filter (\<lambda>h. h_userId h = 1) (highlights world_hh) = [] @ ?h # [hl ''h2'' ''gamma delta'' 1]"
    by (simp add: world_hh_def hl_def)
  have b: "\<not> db_fails ?env (HighlightFind 1)"
    by (simp add: env_reject_def)
  have c: "autoIndex_loop ?env 1 [] (log_op (HighlightFind 1) world_hh)
             = (Inr (), log_op (HighlightFind 1) world_hh)"
    by simp
  have d: "units_for (uuid ?h) 1 (log_op (HighlightFind 1) world_hh) = []"
    by (simp add: units_for_def world_hh_def)
  have e: "\<not> db_fails ?env (FindOne (by_highlight (uuid ?h) 1))"
    by (simp add: env_reject_def)
  have f: "db_fails ?env (Create (annotation_fields ?h 1))"
    by (simp add: env_reject_def)
  have g: "q_query (simple_query ''alpha'') = Some ''alpha'' \<and> 2 \<le> length (trim ''alpha'')
     \<and> \<not> db_fails ?env (CountDocuments (no_filter\<lparr> by_userId := Some 1 \<rparr>))
     \<and> filter (\<lambda>d. userId d = 1) (searchIndex world_hh) = []"
    by (simp add: simple_query_def trim_def is_space_def env_reject_def world_hh_def)
  from backfill_stops_at_failure [OF a b c d e f, of "simple_query ''alpha''" "''alpha''" world_hh] g a
  show ?thesis
    by blast
qed

section \<open>C8: suggestions\<close>

lemma split_ws_pieces:
  "p \<in> set (split_ws in_run cur s) \<Longrightarrow> \<forall>c \<in> set cur. \<not> is_space c
     \<Longrightarrow> \<forall>c \<in> set p. \<not> is_space c"
proof (induction s arbitrary: in_run cur)
  case Nil
  then show ?case by simp
next
  case (Cons a s)
  show ?case
  proof (cases "is_space a")
    case True
    with Cons.prems Cons.IH [of True cur] Cons.IH [of True "[]"] show ?thesis
      by (cases in_run) auto
  next
    case False
    with Cons.prems Cons.IH [of False "cur @ [a]"] show ?thesis
      by auto
  qed
qed

lemma concat_split_ws:
  "concat (split_ws in_run cur s) = cur @ filter (\<lambda>c. \<not> is_space c) s"
proof (induction s arbitrary: in_run cur)
  case Nil
  then show ?case by simp
next
  case (Cons a s)
  show ?case
    using Cons.IH [of True cur] Cons.IH [of True "[]"] Cons.IH [of False "cur @ [a]"]
    by simp
qed

text \<open>The pieces of \<open>split_whitespace\<close> hold no white space, and together they are the
  text without its white space.\<close>

lemma split_whitespace_pieces:
  "p \<in> set (split_whitespace s) \<Longrightarrow> \<forall>c \<in> set p. \<not> is_space c"
  unfolding split_whitespace_def by (erule split_ws_pieces) simp

lemma concat_split_whitespace:
  "concat (split_whitespace s) = filter (\<lambda>c. \<not> is_space c) s"
  by (simp add: split_whitespace_def concat_split_ws)

lemma set_add_all_distinct: "distinct acc \<Longrightarrow> distinct (set_add_all acc xs)"
  by (induction xs arbitrary: acc) auto

lemma filter_pred_suggestion:
  "regex_test env s = Some t \<Longrightarrow>
   filter_pred env (suggestion_filter u s) = Some (\<lambda>d. t (content d) \<and> userId d = u)"
  by (auto simp: filter_pred_def suggestion_filter_def matches_fields_def fun_eq_iff)

lemma getSuggestions_eq:
  assumes "regex_test env s = Some t" and "\<not> db_fails env (Find (suggestion_filter u s))"
    and "2 \<le> length s"
  shows "fst (getSuggestions env u (Some s) w) =
           map (\<lambda>t. Suggestion t 1)
             (take 5 (set_add_all [] (candidate_words (toLowerCase s) (scanned_units t u w))))"
  using assms
  by (auto simp: getSuggestions_def SearchIndex_find_def run_query_def filter_pred_suggestion
      window_def scanned_units_def candidate_words_def Let_def)

lemma candidate_wordsD:
  "x \<in> set (candidate_words ql ds) \<Longrightarrow>
     take (length ql) x = ql \<and> length ql < length x \<and>
     (\<exists>d \<in> set ds. \<exists>word \<in> set (split_whitespace (content d)).
        x = toLowerCase (filter is_word_char word))"
  by (auto simp: candidate_words_def content_suggestions_def is_suggestion_def cleanWord_def)

text \<open>
  Claim C8, amended. A query of fewer than two characters gives no suggestions. For a
  longer query whose lookup goes through, \<open>getSuggestions\<close> reads the first five
  matching entries of the owner in natural order (it does not sort by recency), splits
  their content at white space, keeps the word characters of each piece in lower case,
  and returns at most five distinct such words, each with count 1, each starting with
  the lower-cased query and longer than it; when at most five distinct words qualify,
  all of them are returned. For a query without metacharacters matching is containment
  up to case.
\<close>

theorem suggestion_extraction:
  "((case q of None \<Rightarrow> True | Some s \<Rightarrow> length s < 2) \<longrightarrow> fst (getSuggestions env u q w) = [])
   \<and> (q = Some s \<and> 2 \<le> length s \<and> regex_test env s = Some t
        \<and> \<not> db_fails env (Find (suggestion_filter u s)) \<longrightarrow>
       length (fst (getSuggestions env u q w)) \<le> 5
     \<and> distinct (map sg_text (fst (getSuggestions env u q w)))
     \<and> (\<forall>x \<in> set (fst (getSuggestions env u q w)).
           sg_count x = 1
         \<and> take (length s) (sg_text x) = toLowerCase s \<and> length s < length (sg_text x)
         \<and> (\<exists>d \<in> set (scanned_units t u w). \<exists>word \<in> set (split_whitespace (content d)).
               sg_text x = toLowerCase (filter is_word_char word)))
     \<and> (length (remdups (candidate_words (toLowerCase s) (scanned_units t u w))) \<le> 5 \<longrightarrow>
           sg_text ` set (fst (getSuggestions env u q w))
             = set (candidate_words (toLowerCase s) (scanned_units t u w)))
     \<and> (literal s \<longrightarrow> t = ci_occurs s))"
proof (intro conjI impI)
  assume "case q of None \<Rightarrow> True | Some s \<Rightarrow> length s < 2"
  then show "fst (getSuggestions env u q w) = []"
    by (auto simp: getSuggestions_def split: option.splits)
next
  assume h: "q = Some s \<and> 2 \<le> length s \<and> regex_test env s = Some t
        \<and> \<not> db_fails env (Find (suggestion_filter u s))"
  let ?c = "candidate_words (toLowerCase s) (scanned_units t u w)"
  let ?d = "set_add_all [] ?c"
  have eq: "fst (getSuggestions env u q w) = map (\<lambda>t. Suggestion t 1) (take 5 ?d)"
    using h getSuggestions_eq by simp
  have texts: "map sg_text (fst (getSuggestions env u q w)) = take 5 ?d"
    by (simp add: eq comp_def)
  have dist: "distinct ?d"
    by (simp add: set_add_all_distinct)
  show "length (fst (getSuggestions env u q w)) \<le> 5"
    by (simp add: eq)
  show "distinct (map sg_text (fst (getSuggestions env u q w)))"
    unfolding texts using dist by simp
  show "\<forall>x \<in> set (fst (getSuggestions env u q w)).
           sg_count x = 1
         \<and> take (length s) (sg_text x) = toLowerCase s \<and> length s < length (sg_text x)
         \<and> (\<exists>d \<in> set (scanned_units t u w). \<exists>word \<in> set (split_whitespace (content d)).
               sg_text x = toLowerCase (filter is_word_char word))"
  proof
    fix x assume "x \<in> set (fst (getSuggestions env u q w))"
    then obtain y where y: "x = Suggestion y 1" "y \<in> set (take 5 ?d)"
      by (auto simp: eq)
    then have "y \<in> set ?c"
      by (auto dest!: in_set_takeD simp: set_add_all_set)
    from candidate_wordsD [OF this] y(1) show "sg_count x = 1
         \<and> take (length s) (sg_text x) = toLowerCase s \<and> length s < length (sg_text x)
         \<and> (\<exists>d \<in> set (scanned_units t u w). \<exists>word \<in> set (split_whitespace (content d)).
               sg_text x = toLowerCase (filter is_word_char word))"
      by (simp add: toLowerCase_def)
  qed
  show "sg_text ` set (fst (getSuggestions env u q w)) = set ?c"
    if "length (remdups ?c) \<le> 5"
  proof -
    have "length ?d = card (set ?d)"
      using dist by (simp add: distinct_card)
    also have "\<dots> = card (set ?c)"
      by (simp add: set_add_all_set)
    also have "\<dots> = length (remdups ?c)"
      by (simp add: length_remdups_card_conv)
    finally have "take 5 ?d = ?d"
      using that by simp
    then have "set (map sg_text (fst (getSuggestions env u q w))) = set ?d"
      by (simp add: texts)
    then show ?thesis
      by (simp add: set_add_all_set)
  qed
  show "t = ci_occurs s" if "literal s"
    using h that by (simp add: regex_test_def)
qed


theorem suggestions_recency_counterexample:
  "map sg_text (fst (getSuggestions env_ok 1 (Some ''ap'') world_six)) = [''apple'']
   \<and> take 5 (set_add_all []
         (candidate_words (toLowerCase ''ap'') (most_recent_units (ci_occurs ''ap'') 1 world_six)))
       = [''application'', ''apple'']"
  by code_simp

theorem suggestion_extraction_witness:
  "length ''a'' < 2 \<and> fst (getSuggestions env_ok 1 (Some ''a'') world_six) = []
   \<and> 2 \<le> length ''ap'' \<and> regex_test env_ok ''ap'' = Some (ci_occurs ''ap'')
   \<and> \<not> db_fails env_ok (Find (suggestion_filter 1 ''ap''))
   \<and> literal ''ap''
   \<and> fst (getSuggestions env_ok 1 (Some ''ap'') world_six) \<noteq> []
   \<and> length (fst (getSuggestions env_ok 1 (Some ''ap'') world_six)) \<le> 5
   \<and> distinct (map sg_text (fst (getSuggestions env_ok 1 (Some ''ap'') world_six)))
   \<and> list_all (\<lambda>x. sg_count x = 1 \<and> take (length ''ap'') (sg_text x) = toLowerCase ''ap''
          \<and> length ''ap'' < length (sg_text x))
        (fst (getSuggestions env_ok 1 (Some ''ap'') world_six))"
proof -
  have l: "literal ''ap''"
    by (simp add: literal_def is_meta_def)
  then have a: "regex_test env_ok ''ap'' = Some (ci_occurs ''ap'')"
    by (simp add: regex_test_def)
  have b: "\<not> db_fails env_ok (Find (suggestion_filter 1 ''ap''))"
    by (simp add: env_ok_def)
  have c: "fst (getSuggestions env_ok 1 (Some ''ap'') world_six) \<noteq> []"
    by code_simp
  note short = suggestion_extraction [of "Some ''a''" env_ok 1 world_six "''a''" "ci_occurs ''a''"]
  note long = suggestion_extraction [of "Some ''ap''" env_ok 1 world_six "''ap''" "ci_occurs ''ap''"]
  from short have s: "fst (getSuggestions env_ok 1 (Some ''a'') world_six) = []"
    by simp
  from long a b have
    "length (fst (getSuggestions env_ok 1 (Some ''ap'') world_six)) \<le> 5"
    "distinct (map sg_text (fst (getSuggestions env_ok 1 (Some ''ap'') world_six)))"
    "\<forall>x \<in> set (fst (getSuggestions env_ok 1 (Some ''ap'') world_six)).
       sg_count x = 1 \<and> take (length ''ap'') (sg_text x) = toLowerCase ''ap''
          \<and> length ''ap'' < length (sg_text x)"
    by simp_all
  with l a b c s show ?thesis
    unfolding list_all_iff by simp
qed

section \<open>Matching up to case\<close>

lemma ci_prefix_iff:
  "ci_prefix t s \<longleftrightarrow> (\<exists>m post. s = m @ post \<and> toLowerCase m = toLowerCase t)"
proof
  assume "ci_prefix t s"
  then have "s = take (length t) s @ drop (length t) s \<and> toLowerCase (take (length t) s) = toLowerCase t"
    by (simp add: ci_prefix_def)
  then show "\<exists>m post. s = m @ post \<and> toLowerCase m = toLowerCase t"
    by blast
next
  assume "\<exists>m post. s = m @ post \<and> toLowerCase m = toLowerCase t"
  then obtain m post where s: "s = m @ post" and m: "toLowerCase m = toLowerCase t"
    by blast
  from m have "length m = length t"
    by (metis length_map toLowerCase_def)
  with s m show "ci_prefix t s"
    by (simp add: ci_prefix_def)
qed

text \<open>\<open>ci_occurs t s\<close>: the text \<open>s\<close> contains \<open>t\<close> up to the case of letters.\<close>

lemma ci_occurs_iff:
  "ci_occurs t s \<longleftrightarrow> (\<exists>pre m post. s = pre @ m @ post \<and> toLowerCase m = toLowerCase t)"
proof (induction s)
  case Nil
  show ?case
    by (auto simp: toLowerCase_def)
next
  case (Cons c cs)
  show ?case
  proof
    assume "ci_occurs t (c # cs)"
    then consider "ci_prefix t (c # cs)" | "ci_occurs t cs"
      by auto
    then show "\<exists>pre m post. c # cs = pre @ m @ post \<and> toLowerCase m = toLowerCase t"
    proof cases
      case 1
      then obtain m post where "c # cs = [] @ m @ post \<and> toLowerCase m = toLowerCase t"
        by (auto simp: ci_prefix_iff)
      then show ?thesis by blast
    next
      case 2
      with Cons.IH obtain pre m post where "cs = pre @ m @ post" "toLowerCase m = toLowerCase t"
        by blast
      then have "c # cs = (c # pre) @ m @ post \<and> toLowerCase m = toLowerCase t"
        by simp
      then show ?thesis by blast
    qed
  next
    assume "\<exists>pre m post. c # cs = pre @ m @ post \<and> toLowerCase m = toLowerCase t"
    then obtain pre m post where s: "c # cs = pre @ m @ post" and m: "toLowerCase m = toLowerCase t"
      by blast
    show "ci_occurs t (c # cs)"
    proof (cases pre)
      case Nil
      with s m have "ci_prefix t (c # cs)"
        unfolding ci_prefix_iff by auto
      then show ?thesis by simp
    next
      case (Cons a pre')
      with s have "cs = pre' @ m @ post"
        by simp
      with m Cons.IH have "ci_occurs t cs"
        by blast
      then show ?thesis by simp
    qed
  qed
qed

section \<open>C7: highlighting the terms\<close>

lemma split_on_nonempty: "split_on sep cur s \<noteq> []"
  by (induction s arbitrary: cur) auto

lemma split_on_pieces:
  "p \<in> set (split_on sep cur s) \<Longrightarrow> sep \<notin> set cur \<Longrightarrow> sep \<notin> set p"
proof (induction s arbitrary: cur)
  case Nil
  then show ?case by simp
next
  case (Cons a s)
  show ?case
  proof (cases "a = sep")
    case True
    with Cons.prems Cons.IH [of "[]"] show ?thesis
      by auto
  next
    case False
    with Cons.prems Cons.IH [of "cur @ [a]"] show ?thesis
      by auto
  qed
qed

lemma join_split_on: "join_with sep (split_on sep cur s) = cur @ s"
proof (induction s arbitrary: cur)
  case Nil
  then show ?case by simp
next
  case (Cons a s)
  show ?case
  proof (cases "a = sep")
    case True
    obtain p ps where "split_on sep [] s = p # ps"
      using split_on_nonempty [of sep "[]" s] by (cases "split_on sep [] s") auto
    with True Cons.IH [of "[]"] show ?thesis
      by simp
  next
    case False
    with Cons.IH [of "cur @ [a]"] show ?thesis
      by simp
  qed
qed

lemma split_on_chars: "p \<in> set (split_on sep cur s) \<Longrightarrow> set p \<subseteq> set cur \<union> set s"
proof (induction s arbitrary: cur)
  case Nil
  then show ?case by simp
next
  case (Cons a s)
  show ?case
  proof (cases "a = sep")
    case True
    with Cons.prems Cons.IH [of "[]"] show ?thesis
      by auto
  next
    case False
    with Cons.prems Cons.IH [of "cur @ [a]"] show ?thesis
      by auto
  qed
qed

lemma literal_terms: "literal q \<Longrightarrow> t \<in> set (split_space q) \<Longrightarrow> literal t"
  using split_on_chars [of t "CHR '' ''" "[]" q]
  by (auto simp: literal_def split_space_def)

lemma query_terms_long: "t \<in> set (query_terms q) \<Longrightarrow> t \<noteq> []"
  by (auto simp: query_terms_def)

lemma highlight_terms: "highlightSearchTerms env c q = replace_terms env (query_terms q) c"
  by (simp add: highlightSearchTerms_def query_terms_def)

text \<open>The replacement of one term, by the kind of term.\<close>

lemma js_replace_step:
  "literal t \<Longrightarrow> t \<noteq> [] \<Longrightarrow> js_replace env t s = Inr (wrap_matches t s)"
  "\<not> literal t \<Longrightarrow> js_regex_replace env t = None \<Longrightarrow> js_replace env t s = Inl (SyntaxError t)"
  "\<not> literal t \<Longrightarrow> js_regex_replace env t = Some r \<Longrightarrow> js_replace env t s = Inr (r s)"
  by (simp_all add: js_replace_def replace_literal_def)

lemma replace_terms_append:
  "\<forall>t \<in> set ts. literal t \<and> t \<noteq> [] \<Longrightarrow>
     replace_terms env (ts @ rest) s = replace_terms env rest (foldl (\<lambda>s t. wrap_matches t s) s ts)"
  by (induction ts arbitrary: s) (simp_all add: js_replace_step)

lemma replace_terms_literal:
  "\<forall>t \<in> set ts. literal t \<and> t \<noteq> [] \<Longrightarrow>
     replace_terms env ts s = Inr (foldl (\<lambda>s t. wrap_matches t s) s ts)"
  using replace_terms_append [of ts env "[]" s] by simp

lemma highlight_literal_terms:
  assumes "\<forall>t \<in> set (query_terms q). literal t"
  shows "highlightSearchTerms env c q = Inr (foldl (\<lambda>s t. wrap_matches t s) c (query_terms q))"
  unfolding highlight_terms
  by (rule replace_terms_literal) (use assms in \<open>auto dest: query_terms_long\<close>)

lemma highlight_literal:
  assumes "literal q"
  shows "highlightSearchTerms env c q = Inr (foldl (\<lambda>s t. wrap_matches t s) c (query_terms q))"
  by (rule highlight_literal_terms) (use assms in \<open>auto simp: query_terms_def dest: literal_terms\<close>)

lemma highlight_at_regex_term:
  assumes "query_terms q = ts @ t # ts'" and "\<forall>p \<in> set ts. literal p" and "\<not> literal t"
  shows "highlightSearchTerms env c q =
     (case js_regex_replace env t of
        None \<Rightarrow> Inl (SyntaxError t)
      | Some r \<Rightarrow> replace_terms env ts' (r (foldl (\<lambda>s t. wrap_matches t s) c ts)))"
proof -
  have "\<forall>p \<in> set ts. literal p \<and> p \<noteq> []"
    using assms(1,2) query_terms_long [of _ q] by auto
  from replace_terms_append [OF this] show ?thesis
    using assms(1,3)
    by (auto simp: highlight_terms js_replace_step split: option.splits)
qed

lemma ci_prefix_append:
  "length t \<le> length xs \<Longrightarrow> ci_prefix t (xs @ ys) \<longleftrightarrow> ci_prefix t xs"
  by (simp add: ci_prefix_def)

lemma wrap_no_match: "\<not> ci_occurs t s \<Longrightarrow> wrap_matches t s = s"
  by (induction s) auto

lemma wrap_matches_step:
  "s \<noteq> [] \<Longrightarrow> t \<noteq> [] \<Longrightarrow> ci_prefix t s \<Longrightarrow>
     wrap_matches t s =
       ''<mark>'' @ take (length t) s @ ''</mark>'' @ wrap_matches t (drop (length t) s)"
  by (cases s) simp_all

lemma wrap_first_match:
  assumes "toLowerCase m = toLowerCase t" and "t \<noteq> []"
    and "\<not> ci_occurs t (pre @ butlast m)"
  shows "wrap_matches t (pre @ m @ post) = pre @ ''<mark>'' @ m @ ''</mark>'' @ wrap_matches t post"
  using assms(3)
proof (induction pre)
  case Nil
  from assms(1) have len: "length m = length t"
    by (metis length_map toLowerCase_def)
  with assms(2) have m: "m @ post \<noteq> []"
    by auto
  have "ci_prefix t (m @ post)"
    using assms(1) unfolding ci_prefix_iff by blast
  from wrap_matches_step [OF m assms(2) this] show ?case
    using len by simp
next
  case (Cons a pre)
  from assms(1) have len: "length m = length t"
    by (metis length_map toLowerCase_def)
  with assms(2) have m: "m \<noteq> []"
    by auto
  from Cons.prems have np: "\<not> ci_prefix t ((a # pre) @ butlast m)"
    and ni: "\<not> ci_occurs t (pre @ butlast m)"
    by simp_all
  have "length t \<le> length ((a # pre) @ butlast m)"
    using len m by simp
  from ci_prefix_append [OF this, of "[last m] @ post"] np m
  have "\<not> ci_prefix t (a # pre @ m @ post)"
    by (metis append.assoc append_Cons append_butlast_last_id)
  with Cons.IH [OF ni] show ?case
    by simp
qed


text \<open>
  Claim C7, amended. \<open>highlightSearchTerms\<close> splits the query at each space character:
  the pieces hold no space and joined by single spaces they are the query; other white
  space does not separate terms. Pieces of length at most 1 are dropped. The remaining
  terms are applied one after the other, in query order, each to the text produced so
  far (the content with the markers of the earlier terms). A term without
  metacharacters leaves a text without an occurrence unchanged, and otherwise wraps the
  leftmost occurrence, as it is written there, in \<open><mark>\<close> and \<open></mark>\<close> and goes on
  behind it. A term with metacharacters is a regular expression: when it does not
  compile, the function throws at that term and returns no text, whatever the terms
  before it wrapped; when it compiles, its replacement is applied and the terms after it
  follow. So when every remaining term is without metacharacters the result is the
  content with each term wrapped in turn. For the content \<open>the quick brown fox\<close> and
  the query \<open>quick fox\<close> the result is
  \<open>the <mark>quick</mark> brown <mark>fox</mark>\<close>. As stated, the claim splits at white
  space and wraps every occurrence in the content.
\<close>

theorem term_highlighting:
  "(\<forall>p \<in> set (split_space q). CHR '' '' \<notin> set p)
   \<and> join_with CHR '' '' (split_space q) = q
   \<and> (\<forall>x. x \<in> set (query_terms q) \<longleftrightarrow> x \<in> set (split_space q) \<and> 1 < length x)
   \<and> highlightSearchTerms env c q = replace_terms env (query_terms q) c
   \<and> replace_terms env [] s = Inr s
   \<and> (literal t \<and> t \<noteq> [] \<longrightarrow>
         replace_terms env (t # ts) s = replace_terms env ts (wrap_matches t s))
   \<and> (\<not> literal t \<and> js_regex_replace env t = None \<longrightarrow>
         replace_terms env (t # ts) s = Inl (SyntaxError t))
   \<and> (\<not> literal t \<and> js_regex_replace env t = Some r \<longrightarrow>
         replace_terms env (t # ts) s = replace_terms env ts (r s))
   \<and> ((\<forall>x \<in> set (query_terms q). literal x) \<longrightarrow>
         highlightSearchTerms env c q =
           Inr (foldl (\<lambda>s t. wrap_matches t s) c (query_terms q)))
   \<and> (query_terms q = ts @ t # ts' \<and> (\<forall>x \<in> set ts. literal x) \<and> \<not> literal t
        \<and> js_regex_replace env t = None \<longrightarrow>
         highlightSearchTerms env c q = Inl (SyntaxError t))
   \<and> (query_terms q = ts @ t # ts' \<and> (\<forall>x \<in> set ts. literal x) \<and> \<not> literal t
        \<and> js_regex_replace env t = Some r \<longrightarrow>
         highlightSearchTerms env c q =
           replace_terms env ts' (r (foldl (\<lambda>s t. wrap_matches t s) c ts)))
   \<and> (\<not> ci_occurs t s \<longrightarrow> wrap_matches t s = s)
   \<and> (toLowerCase m = toLowerCase t \<and> t \<noteq> [] \<and> \<not> ci_occurs t (pre @ butlast m) \<longrightarrow>
         wrap_matches t (pre @ m @ post)
           = pre @ ''<mark>'' @ m @ ''</mark>'' @ wrap_matches t post)
   \<and> highlightSearchTerms env ''the quick brown fox'' ''quick fox''
         = Inr ''the <mark>quick</mark> brown <mark>fox</mark>''"
proof (intro conjI impI ballI allI)
  fix p assume "p \<in> set (split_space q)"
  then show "CHR '' '' \<notin> set p"
    unfolding split_space_def by (rule split_on_pieces) simp
next
  show "join_with CHR '' '' (split_space q) = q"
    by (simp add: split_space_def join_split_on)
next
  fix x show "x \<in> set (query_terms q) \<longleftrightarrow> x \<in> set (split_space q) \<and> 1 < length x"
    by (auto simp: query_terms_def)
next
  show "highlightSearchTerms env c q = replace_terms env (query_terms q) c"
    by (rule highlight_terms)
next
  show "replace_terms env [] s = Inr s"
    by simp
next
  assume "literal t \<and> t \<noteq> []"
  then show "replace_terms env (t # ts) s = replace_terms env ts (wrap_matches t s)"
    by (simp add: js_replace_step)
next
  assume "\<not> literal t \<and> js_regex_replace env t = None"
  then show "replace_terms env (t # ts) s = Inl (SyntaxError t)"
    by (simp add: js_replace_step)
next
  assume "\<not> literal t \<and> js_regex_replace env t = Some r"
  then show "replace_terms env (t # ts) s = replace_terms env ts (r s)"
    by (simp add: js_replace_step)
next
  assume "\<forall>x \<in> set (query_terms q). literal x"
  then show "highlightSearchTerms env c q =
      Inr (foldl (\<lambda>s t. wrap_matches t s) c (query_terms q))"
    by (rule highlight_literal_terms)
next
  assume h: "query_terms q = ts @ t # ts' \<and> (\<forall>x \<in> set ts. literal x) \<and> \<not> literal t
        \<and> js_regex_replace env t = None"
  then have "query_terms q = ts @ t # ts'" "\<forall>p \<in> set ts. literal p" "\<not> literal t"
    by simp_all
  from highlight_at_regex_term [OF this, of env c] h
  show "highlightSearchTerms env c q = Inl (SyntaxError t)"
    by simp
next
  assume h: "query_terms q = ts @ t # ts' \<and> (\<forall>x \<in> set ts. literal x) \<and> \<not> literal t
        \<and> js_regex_replace env t = Some r"
  then have "query_terms q = ts @ t # ts'" "\<forall>p \<in> set ts. literal p" "\<not> literal t"
    by simp_all
  from highlight_at_regex_term [OF this, of env c] h
  show "highlightSearchTerms env c q =
      replace_terms env ts' (r (foldl (\<lambda>s t. wrap_matches t s) c ts))"
    by simp
next
  assume "\<not> ci_occurs t s"
  then show "wrap_matches t s = s"
    by (rule wrap_no_match)
next
  assume "toLowerCase m = toLowerCase t \<and> t \<noteq> [] \<and> \<not> ci_occurs t (pre @ butlast m)"
  then show "wrap_matches t (pre @ m @ post)
           = pre @ ''<mark>'' @ m @ ''</mark>'' @ wrap_matches t post"
    by (intro wrap_first_match) simp_all
next
  have l: "literal ''quick fox''"
    by (simp add: literal_def is_meta_def)
  have "foldl (\<lambda>s t. wrap_matches t s) ''the quick brown fox'' (query_terms ''quick fox'')
        = ''the <mark>quick</mark> brown <mark>fox</mark>''"
    by code_simp
  with highlight_literal [OF l, of env "''the quick brown fox''"]
  show "highlightSearchTerms env ''the quick brown fox'' ''quick fox''
         = Inr ''the <mark>quick</mark> brown <mark>fox</mark>''"
    by simp
qed

theorem term_highlighting_counterexample:
  "highlightSearchTerms env_ok ''the quick brown fox'' (''quick'' @ [CHR 0x09] @ ''fox'')
     = Inr ''the quick brown fox''
   \<and> split_whitespace (''quick'' @ [CHR 0x09] @ ''fox'') = [''quick'', ''fox'']
   \<and> ci_occurs ''quick'' ''the quick brown fox''
   \<and> ci_occurs ''fox'' ''the quick brown fox''
   \<and> highlightSearchTerms env_ok ''mark it'' ''it mark''
     = Inr ''<mark>mark</mark> <<mark>mark</mark>>it</<mark>mark</mark>>''"
  by code_simp

theorem term_highlighting_witness:
  "list_all (\<lambda>p. CHR '' '' \<notin> set p) (split_space ''? fox'')
   \<and> join_with CHR '' '' (split_space ''? fox'') = ''? fox''
   \<and> \<not> literal ''? fox''
   \<and> list_all literal (query_terms ''? fox'')
   \<and> highlightSearchTerms env_ok ''a fox'' ''? fox'' = Inr ''a <mark>fox</mark>''
   \<and> query_terms ''fox c++'' = [''fox''] @ ''c++'' # []
   \<and> list_all literal [''fox''] \<and> \<not> literal ''c++''
   \<and> js_regex_replace env_ok ''c++'' = None
   \<and> highlightSearchTerms env_ok ''a fox'' ''fox c++'' = Inl (SyntaxError ''c++'')
   \<and> query_terms ''fox z.z'' = [''fox''] @ ''z.z'' # []
   \<and> \<not> literal ''z.z''
   \<and> js_regex_replace env_engine ''z.z'' = Some (\<lambda>s. s)
   \<and> highlightSearchTerms env_engine ''a fox'' ''fox z.z'' = Inr ''a <mark>fox</mark>''
   \<and> \<not> ci_occurs ''fox'' ''a dog''
   \<and> wrap_matches ''fox'' ''a dog'' = ''a dog''
   \<and> toLowerCase ''Fox'' = toLowerCase ''fox''
   \<and> \<not> ci_occurs ''fox'' (''a '' @ butlast ''Fox'')
   \<and> wrap_matches ''fox'' (''a '' @ ''Fox'' @ ''y'') = ''a <mark>Fox</mark>y''"
proof -
  note t1 = term_highlighting [where q = "''? fox''" and env = env_ok and c = "''a fox''"
      and t = "''fox''" and s = "''a dog''" and m = "''Fox''" and pre = "''a ''" and post = "''y''"]
  note t2 = term_highlighting [where q = "''fox c++''" and env = env_ok and c = "''a fox''"
      and ts = "[''fox'']" and t = "''c++''" and ts' = "[]"]
  note t3 = term_highlighting [where q = "''fox z.z''" and env = env_engine and c = "''a fox''"
      and ts = "[''fox'']" and t = "''z.z''" and ts' = "[]" and r = "\<lambda>s. s"]
  have q1: "query_terms ''? fox'' = [''fox'']"
    by code_simp
  have q2: "query_terms ''fox c++'' = [''fox''] @ ''c++'' # []"
    by code_simp
  have q3: "query_terms ''fox z.z'' = [''fox''] @ ''z.z'' # []"
    by code_simp
  have l: "literal ''fox''" "\<not> literal ''c++''" "\<not> literal ''z.z''" "\<not> literal ''? fox''"
    by (simp_all add: literal_def is_meta_def)
  have e: "js_regex_replace env_ok ''c++'' = None"
    "js_regex_replace env_engine ''z.z'' = Some (\<lambda>s. s)"
    by (simp_all add: env_ok_def env_engine_def)
  have w: "wrap_matches ''fox'' ''a fox'' = ''a <mark>fox</mark>''"
    "wrap_matches ''fox'' ''y'' = ''y''"
    by code_simp+
  have n: "\<not> ci_occurs ''fox'' ''a dog''" "toLowerCase ''Fox'' = toLowerCase ''fox''"
    "\<not> ci_occurs ''fox'' (''a '' @ butlast ''Fox'')"
    by code_simp+
  have a1: "list_all (\<lambda>p. CHR '' '' \<notin> set p) (split_space ''? fox'')"
    using t1 [THEN conjunct1] unfolding list_all_iff .
  have a2: "join_with CHR '' '' (split_space ''? fox'') = ''? fox''"
    using t1 by blast
  have a3: "highlightSearchTerms env_ok ''a fox'' ''? fox'' = Inr ''a <mark>fox</mark>''"
  proof -
    have "\<forall>x \<in> set (query_terms ''? fox''). literal x"
      using l by (simp add: q1)
    with t1 have "highlightSearchTerms env_ok ''a fox'' ''? fox''
        = Inr (foldl (\<lambda>s t. wrap_matches t s) ''a fox'' (query_terms ''? fox''))"
      by blast
    then show ?thesis
      by (simp only: q1 foldl.simps w)
  qed
  have a4: "highlightSearchTerms env_ok ''a fox'' ''fox c++'' = Inl (SyntaxError ''c++'')"
  proof -
    have "query_terms ''fox c++'' = [''fox''] @ ''c++'' # [] \<and> (\<forall>x \<in> set [''fox'']. literal x)
        \<and> \<not> literal ''c++'' \<and> js_regex_replace env_ok ''c++'' = None"
      using q2 l e by simp
    with t2 show ?thesis
      by blast
  qed
  have a5: "highlightSearchTerms env_engine ''a fox'' ''fox z.z'' = Inr ''a <mark>fox</mark>''"
  proof -
    have "query_terms ''fox z.z'' = [''fox''] @ ''z.z'' # [] \<and> (\<forall>x \<in> set [''fox'']. literal x)
        \<and> \<not> literal ''z.z'' \<and> js_regex_replace env_engine ''z.z'' = Some (\<lambda>s. s)"
      using q3 l e by simp
    with t3 have "highlightSearchTerms env_engine ''a fox'' ''fox z.z''
        = replace_terms env_engine [] ((\<lambda>s. s) (foldl (\<lambda>s t. wrap_matches t s) ''a fox'' [''fox'']))"
      by blast
    then show ?thesis
      by (simp only: foldl.simps w replace_terms.simps)
  qed
  have a6: "wrap_matches ''fox'' ''a dog'' = ''a dog''"
    using t1 n by blast
  have a7: "wrap_matches ''fox'' (''a '' @ ''Fox'' @ ''y'') = ''a <mark>Fox</mark>y''"
  proof -
    have "toLowerCase ''Fox'' = toLowerCase ''fox'' \<and> ''fox'' \<noteq> []
        \<and> \<not> ci_occurs ''fox'' (''a '' @ butlast ''Fox'')"
      using n by simp
    with t1 have "wrap_matches ''fox'' (''a '' @ ''Fox'' @ ''y'')
        = ''a '' @ ''<mark>'' @ ''Fox'' @ ''</mark>'' @ wrap_matches ''fox'' ''y''"
      by blast
    then show ?thesis
      by (simp only: w append.simps)
  qed
  have q1': "list_all literal (query_terms ''? fox'')"
    using l by (simp add: q1)
  from a1 a2 a3 a4 a5 a6 a7 q1' q2 q3 l e n show ?thesis
    by simp
qed

section \<open>C9: the fuzzy flag\<close>

lemma filter_pred_literal:
  "by_content f = Some q \<Longrightarrow> literal q \<Longrightarrow>
     filter_pred env f = Some (\<lambda>d. ci_occurs q (content d) \<and> matches_fields f d)"
  by (simp add: filter_pred_def regex_test_def)

lemma find_contains:
  assumes "SearchIndex_find env f sd sk lim w = (Inr rs, w')" and "by_content f = Some q"
    and "literal q" and "d \<in> set rs"
  shows "ci_occurs q (content d)"
proof -
  from assms(1) obtain p where p: "run_query env (Find f) f = Some p"
    and rs: "rs = window sk lim ((if sd then sort_createdAt_desc else id) (filter p (searchIndex w)))"
    by (auto simp: SearchIndex_find_def split: option.splits if_splits)
  have "set rs \<subseteq> set ((if sd then sort_createdAt_desc else id) (filter p (searchIndex w)))"
    unfolding rs by (rule window_subset)
  also have "\<dots> = set (filter p (searchIndex w))"
    by (simp add: sort_createdAt_desc_def)
  finally have "p d"
    using assms(4) by auto
  moreover from p have "p = (\<lambda>d. ci_occurs q (content d) \<and> matches_fields f d)"
    using filter_pred_literal [OF assms(2,3), of env]
    by (simp add: run_query_def split: if_splits)
  ultimately show ?thesis
    by simp
qed

lemma by_content_advanced_filter [simp]: "by_content (advanced_filter u q ps df dt) = Some q"
  by (simp add: advanced_filter_def Let_def split: option.splits)

lemma advancedSearch_try_contains:
  assumes "advancedSearch_try env u ps w = (Inr resp, w')" and "r \<in> set (results resp)"
    and "a_query ps = Some q" and "literal q"
  shows "ci_occurs q (r_content r)"
proof -
  from assms(1-3) obtain f rs m sk lim w1 w2 frs where
    f: "SearchIndex_find env f True sk lim w1 = (Inr rs, w2)" "by_content f = Some q"
    and fr: "format_results env m q rs = Inr frs" "r \<in> set frs"
    by (auto simp: advancedSearch_try_def invalid_query_response_def Let_def
        split: option.splits prod.splits sum.splits if_splits)
  from format_results_renders [OF fr] obtain d where d: "d \<in> set rs" "renders r d"
    by blast
  with find_contains [OF f assms(4) d(1)] show ?thesis
    by (simp add: renders_def)
qed


lemma fuzzy_unread:
  "advanced_filter u q (ps\<lparr> a_fuzzy := f \<rparr>) df dt = advanced_filter u q ps df dt"
  "page_of (ps\<lparr> a_fuzzy := f \<rparr>) = page_of ps"
  "limit_of (ps\<lparr> a_fuzzy := f \<rparr>) = limit_of ps"
  "a_query (ps\<lparr> a_fuzzy := f \<rparr>) = a_query ps"
  "a_dateFrom (ps\<lparr> a_fuzzy := f \<rparr>) = a_dateFrom ps"
  "a_dateTo (ps\<lparr> a_fuzzy := f \<rparr>) = a_dateTo ps"
  by (simp_all add: advanced_filter_def page_of_def limit_of_def)

lemma advancedSearch_fuzzy_ignored:
  "advancedSearch env u (ps\<lparr> a_fuzzy := f \<rparr>) w = advancedSearch env u ps w"
  unfolding advancedSearch_def advancedSearch_try_def fuzzy_unread ..

lemma advancedSearch_try_fuzzy:
  "advancedSearch_try env u ps w = (Inr resp, w') \<Longrightarrow>
     (status resp = 200 \<and> fuzzy resp = Some False) \<or> (status resp = 400 \<and> fuzzy resp = None)"
  by (auto simp: advancedSearch_try_def invalid_query_response_def Let_def
      split: option.splits prod.splits sum.splits if_splits)

text \<open>For a query without metacharacters the formatting of the page does not throw,
  and each result shows the entry at its place.\<close>

lemma format_result_renders: "renders (format_result m h d) d"
  by (simp add: format_result_def renders_def)

lemma format_results_literal:
  "literal q \<Longrightarrow> \<exists>frs. format_results env m q ds = Inr frs \<and> list_all2 renders frs ds"
proof (induction ds)
  case Nil
  show ?case by simp
next
  case (Cons d ds)
  then obtain frs where "format_results env m q ds = Inr frs" "list_all2 renders frs ds"
    by blast
  with highlight_literal [OF Cons.prems, of env "content d"] show ?case
    by (simp add: format_result_renders)
qed

text \<open>The other fields of the filter of an advanced search.\<close>

lemma advanced_filter_fields:
  "matches_fields (advanced_filter u q ps df dt) d \<longleftrightarrow>
     userId d = u
     \<and> (case a_pdfUuids ps of None \<Rightarrow> True | Some l \<Rightarrow> l = [] \<or> pdfUuid d \<in> set l)
     \<and> (case a_contentTypes ps of None \<Rightarrow> True
         | Some l \<Rightarrow> ''all'' \<in> set l \<or> contentType_name (contentType d) \<in> set l)
     \<and> (case df of None \<Rightarrow> True | Some t \<Rightarrow> t \<le> createdAt d)
     \<and> (case dt of None \<Rightarrow> True | Some t \<Rightarrow> createdAt d \<le> t)
     \<and> (case a_pageNumber ps of None \<Rightarrow> True | Some n \<Rightarrow> n = 0 \<or> pageNumber d = n)"
  by (auto simp: advanced_filter_def matches_fields_def Let_def split: option.splits)

lemma find_literal:
  assumes "by_content f = Some q" and "literal q" and "\<not> db_fails env (Find f)" and "0 \<le> sk"
  shows "SearchIndex_find env f True sk lim w =
     (Inr (window sk lim (sort_createdAt_desc (matching_units q f w))), log_op (Find f) w)"
  using assms filter_pred_literal [OF assms(1,2), of env]
  by (simp add: SearchIndex_find_def run_query_def matching_units_def)

lemma count_literal:
  assumes "by_content f = Some q" and "literal q" and "\<not> db_fails env (CountDocuments f)"
  shows "SearchIndex_countDocuments env f w =
     (Inr (length (matching_units q f w)), log_op (CountDocuments f) w)"
  using assms filter_pred_literal [OF assms(1,2), of env]
  by (simp add: SearchIndex_countDocuments_def run_query_def matching_units_def)

lemma matching_units_log: "matching_units q f (log_op op w) = matching_units q f w"
  by (simp add: matching_units_def log_op_def)

lemma advancedSearch_literal:
  assumes flt: "flt = advanced_filter u q ps df dt"
    and q: "a_query ps = Some q" "literal q" "2 \<le> length (trim q)"
    and dates: "date_bound env (a_dateFrom ps) = Inr df" "date_bound env (a_dateTo ps) = Inr dt"
    and db: "\<not> db_fails env (Find flt)" "\<not> db_fails env (CountDocuments flt)"
    and sk: "0 \<le> (page_of ps - 1) * limit_of ps"
  shows "status (fst (advancedSearch env u ps w)) = 200
     \<and> pg_total (pagination (fst (advancedSearch env u ps w))) = length (matching_units q flt w)
     \<and> list_all2 renders (results (fst (advancedSearch env u ps w)))
          (window ((page_of ps - 1) * limit_of ps) (limit_of ps)
             (sort_createdAt_desc (matching_units q flt w)))"
proof -
  let ?rs = "window ((page_of ps - 1) * limit_of ps) (limit_of ps)
      (sort_createdAt_desc (matching_units q flt w))"
  have c: "by_content flt = Some q"
    by (simp add: flt)
  have ne: "q \<noteq> []" "\<not> length (trim q) < 2"
    using q(3) by (auto simp: trim_def)
  obtain m w3 where n: "pdf_names env u ?rs (log_op (CountDocuments flt) (log_op (Find flt) w)) = (m, w3)"
    by (cases "pdf_names env u ?rs (log_op (CountDocuments flt) (log_op (Find flt) w))")
  from format_results_literal [OF q(2), of env m ?rs] obtain frs where
    frs: "format_results env m q ?rs = Inr frs" "list_all2 renders frs ?rs"
    by blast
  have "advancedSearch_try env u ps w =
      (Inr \<lparr> status = 200, error_text = None, message = None, results = frs,
          pagination = Pagination (length (matching_units q flt w))
            (ceil_div (int (length (matching_units q flt w))) (limit_of ps)) (page_of ps),
          needsIndexing = None, echo_query = Some q, fuzzy = Some False \<rparr>, w3)"
    unfolding advancedSearch_try_def Let_def
    using q(1) ne dates
    by (simp add: flt [symmetric] find_literal [OF c q(2) db(1) sk]
        count_literal [OF c q(2) db(2)] matching_units_log n frs(1))
  with frs(2) show ?thesis
    by (simp add: advancedSearch_def)
qed

text \<open>
  Claim C9, amended. The \<open>fuzzy\<close> flag of an advanced search is never read: the
  response and the world are the same whatever its value. A response with status 200
  carries \<open>fuzzy: false\<close>; the responses with status 400 and 500 carry no \<open>fuzzy\<close> key.
  For a query without metacharacters matching is containment up to case, nothing more
  and nothing less. Every result contains the query up to case, so when no entry of the
  owner contains it (one may come close, up to a typo) there are no results. And when
  the query has two characters or more after trimming, the date bounds parse, the page
  query and the count are not rejected and the skip is not negative, the response has
  status 200, \<open>total\<close> counts every entry that contains the query and passes the other
  fields of the filter, and the results show exactly those entries, the most recent
  first, cut to the requested page. The other fields of the filter are the owner and
  the document, content type, date and page restrictions of the request. As stated,
  the claim has every response carry \<open>fuzzy: false\<close>.
\<close>

theorem fuzzy_flag:
  "advancedSearch env u (ps\<lparr> a_fuzzy := f \<rparr>) w = advancedSearch env u ps w
   \<and> (status (fst (advancedSearch env u ps w)) = 200 \<longrightarrow>
         fuzzy (fst (advancedSearch env u ps w)) = Some False)
   \<and> (status (fst (advancedSearch env u ps w)) \<noteq> 200 \<longrightarrow>
         fuzzy (fst (advancedSearch env u ps w)) = None)
   \<and> (a_query ps = Some q \<and> literal q \<longrightarrow>
         (\<forall>r \<in> set (results (fst (advancedSearch env u ps w))). ci_occurs q (r_content r)))
   \<and> (a_query ps = Some q \<and> literal q
        \<and> (\<forall>d \<in> set (searchIndex w). userId d = u \<longrightarrow> \<not> ci_occurs q (content d)) \<longrightarrow>
         results (fst (advancedSearch env u ps w)) = [])
   \<and> (flt = advanced_filter u q ps df dt \<and> a_query ps = Some q \<and> literal q
        \<and> 2 \<le> length (trim q)
        \<and> date_bound env (a_dateFrom ps) = Inr df \<and> date_bound env (a_dateTo ps) = Inr dt
        \<and> \<not> db_fails env (Find flt) \<and> \<not> db_fails env (CountDocuments flt)
        \<and> 0 \<le> (page_of ps - 1) * limit_of ps \<longrightarrow>
         status (fst (advancedSearch env u ps w)) = 200
         \<and> pg_total (pagination (fst (advancedSearch env u ps w)))
             = length (matching_units q flt w)
         \<and> list_all2 renders (results (fst (advancedSearch env u ps w)))
             (window ((page_of ps - 1) * limit_of ps) (limit_of ps)
                (sort_createdAt_desc (matching_units q flt w))))
   \<and> (\<forall>x. x \<in> set (matching_units q flt w) \<longleftrightarrow>
         x \<in> set (searchIndex w) \<and> ci_occurs q (content x) \<and> matches_fields flt x)
   \<and> (matches_fields (advanced_filter u q ps df dt) d \<longleftrightarrow>
         userId d = u
         \<and> (case a_pdfUuids ps of None \<Rightarrow> True | Some l \<Rightarrow> l = [] \<or> pdfUuid d \<in> set l)
         \<and> (case a_contentTypes ps of None \<Rightarrow> True
             | Some l \<Rightarrow> ''all'' \<in> set l \<or> contentType_name (contentType d) \<in> set l)
         \<and> (case df of None \<Rightarrow> True | Some t \<Rightarrow> t \<le> createdAt d)
         \<and> (case dt of None \<Rightarrow> True | Some t \<Rightarrow> createdAt d \<le> t)
         \<and> (case a_pageNumber ps of None \<Rightarrow> True | Some n \<Rightarrow> n = 0 \<or> pageNumber d = n))"
proof -
  obtain x w' where x: "advancedSearch_try env u ps w = (x, w')"
    by (cases "advancedSearch_try env u ps w")
  have c1: "advancedSearch env u (ps\<lparr> a_fuzzy := f \<rparr>) w = advancedSearch env u ps w"
    by (rule advancedSearch_fuzzy_ignored)
  have c2: "status (fst (advancedSearch env u ps w)) = 200 \<longrightarrow>
      fuzzy (fst (advancedSearch env u ps w)) = Some False"
    using x advancedSearch_try_fuzzy [of env u ps w]
    by (cases x) (auto simp: advancedSearch_def failed_response_def)
  have c3: "status (fst (advancedSearch env u ps w)) \<noteq> 200 \<longrightarrow>
      fuzzy (fst (advancedSearch env u ps w)) = None"
    using x advancedSearch_try_fuzzy [of env u ps w]
    by (cases x) (auto simp: advancedSearch_def failed_response_def)
  have contains: "ci_occurs q (r_content r)"
    if "a_query ps = Some q \<and> literal q" and "r \<in> set (results (fst (advancedSearch env u ps w)))"
    for r
    using that x advancedSearch_try_contains [of env u ps w _ w' r q]
    by (cases x) (auto simp: advancedSearch_def failed_response_def)
  then have c4: "a_query ps = Some q \<and> literal q \<longrightarrow>
      (\<forall>r \<in> set (results (fst (advancedSearch env u ps w))). ci_occurs q (r_content r))"
    by blast
  have c5: "a_query ps = Some q \<and> literal q
        \<and> (\<forall>d \<in> set (searchIndex w). userId d = u \<longrightarrow> \<not> ci_occurs q (content d)) \<longrightarrow>
      results (fst (advancedSearch env u ps w)) = []"
  proof
    assume h: "a_query ps = Some q \<and> literal q
        \<and> (\<forall>d \<in> set (searchIndex w). userId d = u \<longrightarrow> \<not> ci_occurs q (content d))"
    show "results (fst (advancedSearch env u ps w)) = []"
    proof (rule ccontr)
      assume "results (fst (advancedSearch env u ps w)) \<noteq> []"
      then obtain r where r: "r \<in> set (results (fst (advancedSearch env u ps w)))"
        by (cases "results (fst (advancedSearch env u ps w))") auto
      from advancedSearch_owned [OF r] obtain d where
        d: "d \<in> set (searchIndex w)" "userId d = u" "renders r d"
        by blast
      from contains [OF _ r] h have "ci_occurs q (r_content r)"
        by blast
      with d h show False
        by (auto simp: renders_def)
    qed
  qed
  have c6: "flt = advanced_filter u q ps df dt \<and> a_query ps = Some q \<and> literal q
        \<and> 2 \<le> length (trim q)
        \<and> date_bound env (a_dateFrom ps) = Inr df \<and> date_bound env (a_dateTo ps) = Inr dt
        \<and> \<not> db_fails env (Find flt) \<and> \<not> db_fails env (CountDocuments flt)
        \<and> 0 \<le> (page_of ps - 1) * limit_of ps \<longrightarrow>
         status (fst (advancedSearch env u ps w)) = 200
         \<and> pg_total (pagination (fst (advancedSearch env u ps w)))
             = length (matching_units q flt w)
         \<and> list_all2 renders (results (fst (advancedSearch env u ps w)))
             (window ((page_of ps - 1) * limit_of ps) (limit_of ps)
                (sort_createdAt_desc (matching_units q flt w)))"
  proof
    assume h: "flt = advanced_filter u q ps df dt \<and> a_query ps = Some q \<and> literal q
        \<and> 2 \<le> length (trim q)
        \<and> date_bound env (a_dateFrom ps) = Inr df \<and> date_bound env (a_dateTo ps) = Inr dt
        \<and> \<not> db_fails env (Find flt) \<and> \<not> db_fails env (CountDocuments flt)
        \<and> 0 \<le> (page_of ps - 1) * limit_of ps"
    then have "flt = advanced_filter u q ps df dt" "a_query ps = Some q" "literal q"
      "2 \<le> length (trim q)"
      "date_bound env (a_dateFrom ps) = Inr df" "date_bound env (a_dateTo ps) = Inr dt"
      "\<not> db_fails env (Find flt)" "\<not> db_fails env (CountDocuments flt)"
      "0 \<le> (page_of ps - 1) * limit_of ps"
      by blast+
    then show "status (fst (advancedSearch env u ps w)) = 200
         \<and> pg_total (pagination (fst (advancedSearch env u ps w)))
             = length (matching_units q flt w)
         \<and> list_all2 renders (results (fst (advancedSearch env u ps w)))
             (window ((page_of ps - 1) * limit_of ps) (limit_of ps)
                (sort_createdAt_desc (matching_units q flt w)))"
      by (rule advancedSearch_literal)
  qed
  have c7: "\<forall>x. x \<in> set (matching_units q flt w) \<longleftrightarrow>
         x \<in> set (searchIndex w) \<and> ci_occurs q (content x) \<and> matches_fields flt x"
    by (auto simp: matching_units_def)
  note c8 = advanced_filter_fields [of u q ps df dt d]
  show ?thesis
    by (intro conjI c1 c2 c3 c4 c5 c6 c7 c8)
qed

theorem fuzzy_flag_counterexample:
  "fuzzy (fst (advancedSearch env_ok 1 (advanced_query ''a'' True) world_two)) = None
   \<and> status (fst (advancedSearch env_ok 1 (advanced_query ''a'' True) world_two)) = 400"
  by (simp add: advancedSearch_def advancedSearch_try_def advanced_query_def trim_def is_space_def
      invalid_query_response_def)

theorem fuzzy_flag_witness:
  "status (fst (advancedSearch env_ok 1 (advanced_query ''fox'' True) world_two)) = 200
   \<and> fuzzy (fst (advancedSearch env_ok 1 (advanced_query ''fox'' True) world_two)) = Some False
   \<and> results (fst (advancedSearch env_ok 1 (advanced_query ''fox'' True) world_two)) \<noteq> []
   \<and> a_query (advanced_query ''fox'' True) = Some ''fox'' \<and> literal ''fox''
   \<and> list_all (\<lambda>r. ci_occurs ''fox'' (r_content r))
        (results (fst (advancedSearch env_ok 1 (advanced_query ''fox'' True) world_two)))
   \<and> status (fst (advancedSearch env_ok 1 (advanced_query ''a'' True) world_two)) \<noteq> 200
   \<and> fuzzy (fst (advancedSearch env_ok 1 (advanced_query ''a'' True) world_two)) = None
   \<and> results (fst (advancedSearch env_ok 1 (advanced_query ''fxo'' True) world_two)) = []
   \<and> fuzzy (fst (advancedSearch env_ok 1 (advanced_query ''fxo'' True) world_two)) = Some False
   \<and> 2 \<le> length (trim ''fox'')
   \<and> date_bound env_ok (a_dateFrom (advanced_query ''fox'' True)) = Inr None
   \<and> date_bound env_ok (a_dateTo (advanced_query ''fox'' True)) = Inr None
   \<and> \<not> db_fails env_ok (Find (advanced_filter 1 ''fox'' (advanced_query ''fox'' True) None None))
   \<and> \<not> db_fails env_ok
         (CountDocuments (advanced_filter 1 ''fox'' (advanced_query ''fox'' True) None None))
   \<and> 0 \<le> (page_of (advanced_query ''fox'' True) - 1) * limit_of (advanced_query ''fox'' True)
   \<and> matching_units ''fox'' (advanced_filter 1 ''fox'' (advanced_query ''fox'' True) None None)
        world_two = [stored (annotation_fields (hl ''h1'' ''red fox'' 1) 1) 0 0]
   \<and> pg_total (pagination (fst (advancedSearch env_ok 1 (advanced_query ''fox'' True) world_two)))
        = 1
   \<and> list_all2 renders
        (results (fst (advancedSearch env_ok 1 (advanced_query ''fox'' True) world_two)))
        [stored (annotation_fields (hl ''h1'' ''red fox'' 1) 1) 0 0]
   \<and> matches_fields (advanced_filter 1 ''fox'' (advanced_query ''fox'' True) None None)
        (stored (annotation_fields (hl ''h1'' ''red fox'' 1) 1) 0 0)
   \<and> \<not> matches_fields (advanced_filter 1 ''fox'' (advanced_query ''fox'' True) None None)
        (stored (annotation_fields (hl ''h2'' ''red fox'' 2) 2) 1 1)"
proof -
  let ?ps = "advanced_query ''fox'' True"
  let ?flt = "advanced_filter 1 ''fox'' ?ps None None"
  let ?d0 = "stored (annotation_fields (hl ''h1'' ''red fox'' 1) 1) 0 0"
  let ?d1 = "stored (annotation_fields (hl ''h2'' ''red fox'' 2) 2) 1 1"
  have b: "a_query ?ps = Some ''fox''" "literal ''fox''"
    by (simp_all add: advanced_query_def literal_def is_meta_def)
  have c: "status (fst (advancedSearch env_ok 1 (advanced_query ''a'' True) world_two)) \<noteq> 200"
    by (simp add: advancedSearch_def advancedSearch_try_def advanced_query_def trim_def is_space_def
      invalid_query_response_def)
  have d': "a_query (advanced_query ''fxo'' True) = Some ''fxo''" "literal ''fxo''"
    "\<forall>d \<in> set (searchIndex world_two). userId d = 1 \<longrightarrow> \<not> ci_occurs ''fxo'' (content d)"
    by (simp_all add: advanced_query_def literal_def is_meta_def world_two_def stored_def
        annotation_fields_def hl_def ci_prefix_def toLowerCase_def to_lower_def is_upper_def)
  have g: "2 \<le> length (trim ''fox'')" "2 \<le> length (trim ''fxo'')"
    by (simp_all add: trim_def is_space_def)
  have h: "date_bound env_ok (a_dateFrom (advanced_query q True)) = Inr None"
    "date_bound env_ok (a_dateTo (advanced_query q True)) = Inr None"
    "\<not> db_fails env_ok op"
    "0 \<le> (page_of (advanced_query q True) - 1) * limit_of (advanced_query q True)"
    "page_of (advanced_query q True) = 1" "limit_of (advanced_query q True) = 20"
    for q op
    by (simp_all add: date_bound_def advanced_query_def env_ok_def page_of_def limit_of_def)
  have mu: "matching_units ''fox'' ?flt world_two = [?d0]"
    by code_simp
  have win: "window ((page_of ?ps - 1) * limit_of ?ps) (limit_of ?ps)
      (sort_createdAt_desc [?d0]) = [?d0]"
    by (simp add: h window_def sort_createdAt_desc_def)
  note t1 = fuzzy_flag [where env = env_ok and u = 1 and ps = ?ps and w = world_two
      and q = "''fox''" and flt = ?flt and df = None and dt = None and d = ?d0]
  note t1' = fuzzy_flag [where env = env_ok and u = 1 and ps = ?ps and w = world_two
      and q = "''fox''" and flt = ?flt and df = None and dt = None and d = ?d1]
  note t2 = fuzzy_flag [where env = env_ok and u = 1 and ps = "advanced_query ''a'' True"
      and w = world_two and q = "''a''"]
  note t3 = fuzzy_flag [where env = env_ok and u = 1 and ps = "advanced_query ''fxo'' True"
      and w = world_two and q = "''fxo''"
      and flt = "advanced_filter 1 ''fxo'' (advanced_query ''fxo'' True) None None"
      and df = None and dt = None]
  have hyp: "?flt = advanced_filter 1 ''fox'' ?ps None None \<and> a_query ?ps = Some ''fox''
      \<and> literal ''fox'' \<and> 2 \<le> length (trim ''fox'')
      \<and> date_bound env_ok (a_dateFrom ?ps) = Inr None \<and> date_bound env_ok (a_dateTo ?ps) = Inr None
      \<and> \<not> db_fails env_ok (Find ?flt) \<and> \<not> db_fails env_ok (CountDocuments ?flt)
      \<and> 0 \<le> (page_of ?ps - 1) * limit_of ?ps"
    using b g h by simp
  from t1 hyp have r: "status (fst (advancedSearch env_ok 1 ?ps world_two)) = 200
      \<and> pg_total (pagination (fst (advancedSearch env_ok 1 ?ps world_two)))
          = length (matching_units ''fox'' ?flt world_two)
      \<and> list_all2 renders (results (fst (advancedSearch env_ok 1 ?ps world_two)))
          (window ((page_of ?ps - 1) * limit_of ?ps) (limit_of ?ps)
             (sort_createdAt_desc (matching_units ''fox'' ?flt world_two)))"
    by blast
  then have a: "status (fst (advancedSearch env_ok 1 ?ps world_two)) = 200"
    "pg_total (pagination (fst (advancedSearch env_ok 1 ?ps world_two))) = 1"
    "list_all2 renders (results (fst (advancedSearch env_ok 1 ?ps world_two))) [?d0]"
    unfolding mu win by simp_all
  then have a': "results (fst (advancedSearch env_ok 1 ?ps world_two)) \<noteq> []"
    by auto
  from t1 a have f1: "fuzzy (fst (advancedSearch env_ok 1 ?ps world_two)) = Some False"
    by blast
  from t1 b have l1: "list_all (\<lambda>r. ci_occurs ''fox'' (r_content r))
      (results (fst (advancedSearch env_ok 1 ?ps world_two)))"
    unfolding list_all_iff by blast
  from t2 c have f2: "fuzzy (fst (advancedSearch env_ok 1 (advanced_query ''a'' True) world_two)) = None"
    by blast
  from d' t3 have e: "results (fst (advancedSearch env_ok 1 (advanced_query ''fxo'' True) world_two)) = []"
    by blast
  have hyp3: "advanced_filter 1 ''fxo'' (advanced_query ''fxo'' True) None None
        = advanced_filter 1 ''fxo'' (advanced_query ''fxo'' True) None None
      \<and> a_query (advanced_query ''fxo'' True) = Some ''fxo''
      \<and> literal ''fxo'' \<and> 2 \<le> length (trim ''fxo'')
      \<and> date_bound env_ok (a_dateFrom (advanced_query ''fxo'' True)) = Inr None
      \<and> date_bound env_ok (a_dateTo (advanced_query ''fxo'' True)) = Inr None
      \<and> \<not> db_fails env_ok (Find (advanced_filter 1 ''fxo'' (advanced_query ''fxo'' True) None None))
      \<and> \<not> db_fails env_ok
           (CountDocuments (advanced_filter 1 ''fxo'' (advanced_query ''fxo'' True) None None))
      \<and> 0 \<le> (page_of (advanced_query ''fxo'' True) - 1) * limit_of (advanced_query ''fxo'' True)"
    using d' g h by simp
  from t3 hyp3 have "status (fst (advancedSearch env_ok 1 (advanced_query ''fxo'' True) world_two)) = 200"
    by blast
  with t3 have f3: "fuzzy (fst (advancedSearch env_ok 1 (advanced_query ''fxo'' True) world_two)) = Some False"
    by blast
  have ap: "a_pdfUuids ?ps = None" "a_contentTypes ?ps = None" "a_pageNumber ?ps = None"
    by (simp_all add: advanced_query_def)
  have m0: "matches_fields ?flt ?d0"
    using t1 [THEN conjunct2, THEN conjunct2, THEN conjunct2, THEN conjunct2,
        THEN conjunct2, THEN conjunct2, THEN conjunct2]
    by (simp add: ap stored_def annotation_fields_def)
  have m1: "\<not> matches_fields ?flt ?d1"
    using t1' [THEN conjunct2, THEN conjunct2, THEN conjunct2, THEN conjunct2,
        THEN conjunct2, THEN conjunct2, THEN conjunct2]
    by (simp add: ap stored_def annotation_fields_def)
  from a a' f1 b l1 c f2 e f3 g(1) mu m0 m1 show ?thesis
    by (simp add: h)
qed

section \<open>What the operations keep\<close>

text \<open>
  The properties above assume of the index that a highlight has at most one entry per
  owner, that identifiers are distinct, and that only annotations carry a
  \<open>highlightId\<close>. Indexing a highlight, the backfill, removal and indexing a document
  keep all three.
\<close>

lemma create_store:
  "SearchIndex_create env f w = (r, w') \<Longrightarrow>
     (searchIndex w' = searchIndex w \<and> clock w' = clock w) \<or>
     (searchIndex w' = searchIndex w @ [stored f (clock w) (clock w)] \<and> clock w' = Suc (clock w))"
  by (auto simp: SearchIndex_create_def log_op_def split: if_splits)

lemma findOne_store:
  "SearchIndex_findOne env f w = (r, w') \<Longrightarrow> searchIndex w' = searchIndex w \<and> clock w' = clock w"
  by (auto simp: SearchIndex_findOne_def log_op_def split: option.splits)

lemma findOne_found:
  "SearchIndex_findOne env (by_highlight i u) w = (Inr None, w') \<Longrightarrow> units_for i u w = []"
  by (auto simp: SearchIndex_findOne_def run_query_def filter_pred_by_highlight units_for_def
      find_None_filter conj_commute split: option.splits if_splits)

lemma doc_id_stored [simp]: "doc_id (stored f n t) = n"
  by (simp add: stored_def)

lemma ids_fresh_append:
  "ids_fresh w \<Longrightarrow> searchIndex w' = searchIndex w @ [stored f (clock w) (clock w)] \<Longrightarrow>
     clock w' = Suc (clock w) \<Longrightarrow> ids_fresh w'"
  by (auto simp: ids_fresh_def list_all_iff less_Suc_eq)

lemma ids_fresh_same:
  "ids_fresh w \<Longrightarrow> searchIndex w' = searchIndex w \<Longrightarrow> clock w' = clock w \<Longrightarrow> ids_fresh w'"
  by (simp add: ids_fresh_def)

text \<open>What one round of the backfill loop, and \<open>indexHighlight\<close>, keep.\<close>

lemma autoIndex_loop_keeps:
  assumes "length (units_for i' u' w) \<le> 1" and "ids_fresh w" and "annotations_only w"
  shows "length (units_for i' u' (snd (autoIndex_loop env u hs w))) \<le> 1
     \<and> ids_fresh (snd (autoIndex_loop env u hs w))
     \<and> annotations_only (snd (autoIndex_loop env u hs w))"
  using assms
proof (induction hs arbitrary: w)
  case Nil
  then show ?case by simp
next
  case (Cons h hs)
  obtain r w1 where f: "SearchIndex_findOne env (by_highlight (uuid h) u) w = (r, w1)"
    by (cases "SearchIndex_findOne env (by_highlight (uuid h) u) w")
  from findOne_store [OF f] Cons.prems
  have k1: "length (units_for i' u' w1) \<le> 1" "ids_fresh w1" "annotations_only w1"
    by (simp_all add: units_for_def ids_fresh_def annotations_only_def)
  obtain r2 w2 where c: "SearchIndex_create env (annotation_fields h u) w1 = (r2, w2)"
    by (cases "SearchIndex_create env (annotation_fields h u) w1")
  have k2: "length (units_for i' u' w2) \<le> 1 \<and> ids_fresh w2 \<and> annotations_only w2"
    if "r = Inr None"
  proof -
    from that f have none: "units_for (uuid h) u w1 = []"
      using findOne_found findOne_store [OF f] by (auto simp: units_for_def)
    from create_store [OF c] show ?thesis
    proof
      assume "searchIndex w2 = searchIndex w1 \<and> clock w2 = clock w1"
      with k1 show ?thesis
        by (simp add: units_for_def ids_fresh_def annotations_only_def)
    next
      assume a: "searchIndex w2 = searchIndex w1 @ [stored (annotation_fields h u) (clock w1) (clock w1)]
          \<and> clock w2 = Suc (clock w1)"
      with k1(2) have "ids_fresh w2"
        by (auto intro: ids_fresh_append)
      moreover from a k1(3) have "annotations_only w2"
        by (simp add: annotations_only_def)
      moreover from a k1(1) none have "length (units_for i' u' w2) \<le> 1"
        by (auto simp: units_for_def)
      ultimately show ?thesis by simp
    qed
  qed
  show ?case
    using f c k1 k2 Cons.IH [of w1] Cons.IH [of w2]
    by (auto split: sum.splits option.splits)
qed

lemma autoIndexHighlights_keeps:
  assumes "length (units_for i' u' w) \<le> 1" and "ids_fresh w" and "annotations_only w"
  shows "length (units_for i' u' (autoIndexHighlights env u w)) \<le> 1
     \<and> ids_fresh (autoIndexHighlights env u w)
     \<and> annotations_only (autoIndexHighlights env u w)"
proof -
  let ?w1 = "log_op (HighlightFind u) w"
  have k: "length (units_for i' u' ?w1) \<le> 1" "ids_fresh ?w1" "annotations_only ?w1"
    using assms by (simp_all add: units_for_def ids_fresh_def annotations_only_def log_op_def)
  from autoIndex_loop_keeps [OF k, of env u] k show ?thesis
    by (auto simp: autoIndexHighlights_def autoIndexHighlights_try_def Highlight_find_def)
qed

lemma indexHighlight_ids_fresh: "ids_fresh w \<Longrightarrow> ids_fresh (indexHighlight env h u w)"
  by (auto simp: ids_fresh_def indexHighlight_store list_all_iff less_Suc_eq
      indexHighlight_def indexHighlight_try_def SearchIndex_findOne_def SearchIndex_create_def
      log_op_def split: option.splits)

lemma set_remove_first: "set (remove_first p ds) \<subseteq> set ds"
  by (induction ds) auto

lemma distinct_remove_first: "distinct (map f ds) \<Longrightarrow> distinct (map f (remove_first p ds))"
proof (induction ds)
  case Nil
  then show ?case by simp
next
  case (Cons a ds)
  with set_remove_first [of p ds] show ?case
    by auto
qed

lemma removeHighlightIndex_clock: "clock (removeHighlightIndex env i u w) = clock w"
  by (simp add: removeHighlightIndex_def removeHighlightIndex_try_def SearchIndex_deleteOne_def
      log_op_def split: option.splits)

lemma removeHighlightIndex_ids_fresh: "ids_fresh w \<Longrightarrow> ids_fresh (removeHighlightIndex env i u w)"
  using set_remove_first [of "\<lambda>d. userId d = u \<and> highlightId d = Some i" "searchIndex w"]
  by (auto simp: ids_fresh_def removeHighlightIndex_store removeHighlightIndex_clock
      distinct_remove_first list_all_iff)

text \<open>Indexing a document adds pages, which carry no \<open>highlightId\<close>.\<close>

lemma store_all_keeps:
  assumes "ids_fresh w" and "\<forall>f \<in> set fs. highlightId f = None"
  shows "ids_fresh (store_all fs w) \<and> units_for i u (store_all fs w) = units_for i u w"
  using assms
proof (induction fs arbitrary: w)
  case Nil
  then show ?case by simp
next
  case (Cons f fs)
  let ?w1 = "w\<lparr> searchIndex := searchIndex w @ [stored f (clock w) (clock w)], clock := Suc (clock w) \<rparr>"
  from Cons.prems have "ids_fresh ?w1"
    by (auto simp: ids_fresh_def list_all_iff less_Suc_eq)
  moreover from Cons.prems have "units_for i u ?w1 = units_for i u w"
    by (simp add: units_for_def stored_def)
  ultimately show ?case
    using Cons.IH [of ?w1] Cons.prems by simp
qed

lemma indexPdf_keeps:
  assumes "ids_fresh w"
  shows "ids_fresh (snd (indexPdf env u pid w))
     \<and> units_for i u' (snd (indexPdf env u pid w)) = units_for i u' w"
proof -
  have n: "\<forall>f \<in> set (indexEntries pid u). highlightId f = None"
    by (auto simp: indexEntries_def dest!: set_zip_leftD)
  have l: "ids_fresh (log_op op w')" if "ids_fresh w'" for op w'
    using that by (simp add: ids_fresh_def log_op_def)
  have "ids_fresh (store_all (indexEntries pid u) w') \<and>
      units_for i u' (store_all (indexEntries pid u) w') = units_for i u' w'"
    if "ids_fresh w'" for w'
    using store_all_keeps [OF that n] .
  then show ?thesis
    using assms l
    by (auto simp: indexPdf_def PDF_findOne_def SearchIndex_findOne_def SearchIndex_insertMany_def
        units_for_def split: prod.splits sum.splits option.splits if_splits)
qed

end
